theory Spec2Isabelle
  imports Main "HOL-Library.Word" "HOL-Library.Char_ord" "HOL-Library.List_Lexorder"
begin

section \<open>Kudu thread registry and thread start handshake (src/util/thread.cc)\<close>

text \<open>
  A shallow embedding of \<^verbatim>\<open>util/thread.cc\<close>: the registry \<^verbatim>\<open>ThreadMgr\<close> with its
  category maps, counters and the \<^verbatim>\<open>/threadz\<close> page handler, and the handshake between
  \<^verbatim>\<open>Thread::StartThread\<close> and \<^verbatim>\<open>Thread::SuperviseThread\<close>.
  Every member function takes the object's state and returns the new one; the mutex
  \<^verbatim>\<open>lock_\<close> makes each member function one atomic step, so it is not a field.
  A failed \<^verbatim>\<open>DCHECK\<close> is the error value \<open>DCheckFailed\<close>.
  A member \<^verbatim>\<open>x_\<close> of the source is the field \<open>x\<close> here (a name cannot end in an
  underscore); the members of \<^verbatim>\<open>ThreadDescriptor\<close> carry the prefix \<open>desc_\<close>.
\<close>

subsection \<open>Machine integers and output formatting\<close>

type_synonym int64_t = "64 word"
type_synonym uint64 = "64 word"
type_synonym Atomic64 = "64 word"
type_synonym Atomic32 = "32 word"

text \<open>\<^verbatim>\<open>operator<<\<close> of a stream on an integer: decimal digits, a minus sign for a negative
  value.\<close>

definition digit_char :: "nat \<Rightarrow> char" where
  "digit_char d = ''0123456789'' ! d"

fun stream_nat :: "nat \<Rightarrow> string" where
  "stream_nat n =
     (if n < 10 then [digit_char n] else stream_nat (n div 10) @ [digit_char (n mod 10)])"

declare stream_nat.simps [simp del]

definition stream_int :: "int \<Rightarrow> string" where
  "stream_int i = (if i < 0 then ''-'' @ stream_nat (nat (- i)) else stream_nat (nat i))"

definition stream_int64 :: "int64_t \<Rightarrow> string" where
  "stream_int64 x = stream_int (sint x)"

definition stream_uint64 :: "uint64 \<Rightarrow> string" where
  "stream_uint64 x = stream_nat (unat x)"

definition endl :: string where
  "endl = [CHR 0x0A]"

definition apostrophe :: string where
  "apostrophe = [CHR 0x27]"

subsection \<open>std::map: an association list in ascending key order\<close>

text \<open>
  \<^verbatim>\<open>std::map\<close> keeps one entry per key and iterates in ascending key order.
  \<open>map_find\<close> is \<^verbatim>\<open>find\<close> (\<open>None\<close> for \<^verbatim>\<open>end()\<close>), \<open>map_assign\<close> is
  \<^verbatim>\<open>m[k] = v\<close> (insert or overwrite), \<open>map_modify\<close> changes the value an iterator
  points at, \<open>map_erase\<close> is \<^verbatim>\<open>erase(k)\<close>, \<open>map_size\<close> is \<^verbatim>\<open>size()\<close>.
  \<^verbatim>\<open>std::string\<close> keys compare bytewise, \<^verbatim>\<open>boost::thread::id\<close> keys by their own
  total order.
\<close>

type_synonym ('k, 'v) std_map = "('k \<times> 'v) list"

definition map_find :: "'k \<Rightarrow> ('k, 'v) std_map \<Rightarrow> 'v option" where
  "map_find k m = map_of m k"

fun map_assign :: "'k::linorder \<Rightarrow> 'v \<Rightarrow> ('k, 'v) std_map \<Rightarrow> ('k, 'v) std_map" where
  "map_assign k v [] = [(k, v)]"
| "map_assign k v ((k', v') # m) =
     (if k < k' then (k, v) # (k', v') # m
      else if k = k' then (k, v) # m
      else (k', v') # map_assign k v m)"

fun map_modify :: "'k \<Rightarrow> ('v \<Rightarrow> 'v) \<Rightarrow> ('k, 'v) std_map \<Rightarrow> ('k, 'v) std_map" where
  "map_modify k f [] = []"
| "map_modify k f ((k', v') # m) =
     (if k = k' then (k', f v') # m else (k', v') # map_modify k f m)"

fun map_erase :: "'k \<Rightarrow> ('k, 'v) std_map \<Rightarrow> ('k, 'v) std_map" where
  "map_erase k [] = []"
| "map_erase k ((k', v') # m) = (if k = k' then m else (k', v') # map_erase k m)"

definition map_size :: "('k, 'v) std_map \<Rightarrow> nat" where
  "map_size m = length m"

definition map_ok :: "('k::linorder, 'v) std_map \<Rightarrow> bool" where
  "map_ok m = sorted_wrt (<) (map fst m)"

subsection \<open>ThreadMgr: data\<close>

type_synonym boost_thread_id = nat

record ThreadDescriptor =
  desc_name :: string
  desc_category :: string
  desc_thread_id :: int64_t

text \<open>The constructor \<^verbatim>\<open>ThreadDescriptor(category, name, thread_id)\<close>.\<close>

definition ThreadDescriptor_ctor :: "string \<Rightarrow> string \<Rightarrow> int64_t \<Rightarrow> ThreadDescriptor" where
  "ThreadDescriptor_ctor category name thread_id =
     \<lparr>desc_name = name, desc_category = category, desc_thread_id = thread_id\<rparr>"

type_synonym ThreadCategory = "(boost_thread_id, ThreadDescriptor) std_map"
type_synonym ThreadCategoryMap = "(string, ThreadCategory) std_map"

record ThreadMgr =
  thread_categories :: ThreadCategoryMap
  metrics_enabled :: bool
  total_threads_metric :: uint64
  current_num_threads_metric :: uint64

datatype error = DCheckFailed string | NullPointer string

text \<open>
  \<^verbatim>\<open>ThreadMgr() : metrics_enabled_(false) { }\<close>: the initialiser list names only
  \<^verbatim>\<open>metrics_enabled_\<close>. The map is default-constructed (empty); the two \<^verbatim>\<open>uint64\<close>
  counters are left uninitialised, so their first values are whatever the memory held:
  the two arguments.
\<close>

definition ThreadMgr_ctor :: "uint64 \<Rightarrow> uint64 \<Rightarrow> ThreadMgr" where
  "ThreadMgr_ctor total_garbage current_garbage =
     \<lparr>thread_categories = [], metrics_enabled = False,
      total_threads_metric = total_garbage,
      current_num_threads_metric = current_garbage\<rparr>"

subsection \<open>ThreadMgr: registration, deregistration, counters\<close>

text \<open>
  \<^verbatim>\<open>StartInstrumentation\<close>: the two pointers are checked by \<^verbatim>\<open>DCHECK_NOTNULL\<close>
  (\<open>None\<close> is the null pointer); the gauges and the page handler it registers live in
  the metrics registry and the web server, which are not part of this state.
\<close>

definition StartInstrumentation :: "ThreadMgr \<Rightarrow> 'r option \<Rightarrow> 'w option \<Rightarrow> error + ThreadMgr" where
  "StartInstrumentation s registry webserver =
     (if registry = None then Inl (DCheckFailed ''registry'')
      else if webserver = None then Inl (DCheckFailed ''webserver'')
      else Inr (s\<lparr>metrics_enabled := True\<rparr>))"

definition ReadNumTotalThreads :: "ThreadMgr \<Rightarrow> uint64" where
  "ReadNumTotalThreads s = total_threads_metric s"

definition ReadNumCurrentThreads :: "ThreadMgr \<Rightarrow> uint64" where
  "ReadNumCurrentThreads s = current_num_threads_metric s"

text \<open>
  \<^verbatim>\<open>thread_categories_[category][thread] = ThreadDescriptor(category, name, tid)\<close>:
  the outer \<^verbatim>\<open>operator[]\<close> creates an empty category when the name is new, the inner one
  inserts or overwrites the entry of \<open>thread\<close>.
\<close>

definition AddThread ::
  "ThreadMgr \<Rightarrow> boost_thread_id \<Rightarrow> string \<Rightarrow> string \<Rightarrow> int64_t \<Rightarrow> ThreadMgr" where
  "AddThread s thread name category tid =
     (let cat = (case map_find category (thread_categories s) of
                   None \<Rightarrow> [] | Some c \<Rightarrow> c);
          s1 = s\<lparr>thread_categories :=
                   map_assign category
                     (map_assign thread (ThreadDescriptor_ctor category name tid) cat)
                     (thread_categories s)\<rparr>
      in if metrics_enabled s1
         then s1\<lparr>current_num_threads_metric := current_num_threads_metric s1 + 1,
                 total_threads_metric := total_threads_metric s1 + 1\<rparr>
         else s1)"

text \<open>
  \<^verbatim>\<open>RemoveThread\<close>: \<^verbatim>\<open>DCHECK(category_it != thread_categories_.end())\<close> fails when the
  category is not a key; otherwise the identity is erased from the category the iterator
  points at, and the counter of running threads is decremented whenever metrics are
  enabled.
\<close>

definition RemoveThread :: "ThreadMgr \<Rightarrow> boost_thread_id \<Rightarrow> string \<Rightarrow> error + ThreadMgr" where
  "RemoveThread s boost_id category =
     (case map_find category (thread_categories s) of
        None \<Rightarrow> Inl (DCheckFailed ''category_it != thread_categories_.end()'')
      | Some _ \<Rightarrow>
          (let s1 = s\<lparr>thread_categories :=
                        map_modify category (map_erase boost_id) (thread_categories s)\<rparr>
           in Inr (if metrics_enabled s1
                   then s1\<lparr>current_num_threads_metric := current_num_threads_metric s1 - 1\<rparr>
                   else s1)))"

text \<open>What the registry holds for an identity in a category, whether an identity is
  registered there, and how many entries all category maps hold together.\<close>

definition lookup_thread :: "ThreadMgr \<Rightarrow> boost_thread_id \<Rightarrow> string \<Rightarrow> ThreadDescriptor option" where
  "lookup_thread s boost_id category =
     (case map_find category (thread_categories s) of
        None \<Rightarrow> None
      | Some cat \<Rightarrow> map_find boost_id cat)"

definition registered :: "ThreadMgr \<Rightarrow> boost_thread_id \<Rightarrow> string \<Rightarrow> bool" where
  "registered s boost_id category = (lookup_thread s boost_id category \<noteq> None)"

definition num_registered :: "ThreadMgr \<Rightarrow> nat" where
  "num_registered s = sum_list (map (\<lambda>c. map_size (snd c)) (thread_categories s))"

text \<open>A sequence of calls on the registry (\<open>Instrument\<close> is \<^verbatim>\<open>StartInstrumentation\<close> with
  two non-null pointers); it stops at the first failed assertion.\<close>

datatype registry_call =
  Add boost_thread_id string string int64_t
| Remove boost_thread_id string
| Instrument

fun run_call :: "ThreadMgr \<Rightarrow> registry_call \<Rightarrow> error + ThreadMgr" where
  "run_call s (Add thread name category tid) = Inr (AddThread s thread name category tid)"
| "run_call s (Remove boost_id category) = RemoveThread s boost_id category"
| "run_call s Instrument = StartInstrumentation s (Some ()) (Some ())"

fun run_calls :: "ThreadMgr \<Rightarrow> registry_call list \<Rightarrow> error + ThreadMgr" where
  "run_calls s [] = Inr s"
| "run_calls s (c # cs) =
     (case run_call s c of Inl e \<Rightarrow> Inl e | Inr s' \<Rightarrow> run_calls s' cs)"

text \<open>
  The calls a supervised thread makes: it registers an identity that is not in the
  category yet, and deregisters one that is (\<^verbatim>\<open>SuperviseThread\<close> calls
  \<open>AddThread\<close> once and \<open>RemoveThread\<close> once, with its own identity).
\<close>

fun call_ok :: "ThreadMgr \<Rightarrow> registry_call \<Rightarrow> bool" where
  "call_ok s (Add thread name category tid) = (\<not> registered s thread category)"
| "call_ok s (Remove boost_id category) = registered s boost_id category"
| "call_ok s Instrument = True"

fun calls_ok :: "ThreadMgr \<Rightarrow> registry_call list \<Rightarrow> bool" where
  "calls_ok s [] = True"
| "calls_ok s (c # cs) =
     (call_ok s c \<and> (case run_call s c of Inl e \<Rightarrow> False | Inr s' \<Rightarrow> calls_ok s' cs))"

fun is_Add :: "registry_call \<Rightarrow> bool" where
  "is_Add (Add thread name category tid) = True"
| "is_Add (Remove boost_id category) = False"
| "is_Add Instrument = False"

definition count_adds :: "registry_call list \<Rightarrow> nat" where
  "count_adds calls = length (filter is_Add calls)"

subsection \<open>The /threadz page\<close>

text \<open>
  What \<^verbatim>\<open>thread.cc\<close> calls but does not define is a parameter: the statistics reader
  \<^verbatim>\<open>GetThreadStats(tid, &stats)\<close> (it receives the default-constructed
  \<^verbatim>\<open>ThreadStats\<close> and returns the status and what \<open>stats\<close> holds afterwards), the
  default constructor of \<^verbatim>\<open>ThreadStats\<close>, \<^verbatim>\<open>EscapeForHtmlToString\<close>,
  \<^verbatim>\<open>UrlEncode\<close>, and the text a stream prints for
  \<^verbatim>\<open>static_cast<double>(ns) / 1e9\<close>. The statistics reader is a function of the
  thread id: what it answers for a thread does not change while one page is rendered.
\<close>

record ThreadStats =
  user_ns :: int64_t
  kernel_ns :: int64_t
  iowait_ns :: int64_t

datatype Status = Status_OK | Status_Error string

fun ok :: "Status \<Rightarrow> bool" where
  "ok Status_OK = True"
| "ok (Status_Error msg) = False"

fun ToString :: "Status \<Rightarrow> string" where
  "ToString Status_OK = ''OK''"
| "ToString (Status_Error msg) = msg"

record collaborators =
  GetThreadStats :: "int64_t \<Rightarrow> ThreadStats \<Rightarrow> Status \<times> ThreadStats"
  ThreadStats_ctor :: ThreadStats
  EscapeForHtmlToString :: "string \<Rightarrow> string"
  UrlEncode :: "string \<Rightarrow> string"
  stream_seconds :: "int64_t \<Rightarrow> string"

text \<open>
  What a call of the page handler acts on besides the registry: the output stream, the
  arguments of the calls made to \<^verbatim>\<open>GetThreadStats\<close> (oldest first), and the INFO log
  with the occurrence counter of the \<^verbatim>\<open>LOG_EVERY_N\<close> statement in
  \<^verbatim>\<open>PrintThreadCategoryRows\<close>.
\<close>

record page_state =
  page_output :: string
  stats_calls :: "int64_t list"
  log_occurrences :: nat
  log_INFO :: "string list"

text \<open>
  glog's \<^verbatim>\<open>LOG_EVERY_N(INFO, n)\<close>: each statement has its own occurrence counter; it
  counts the times the statement is reached and writes the message on the 1st, the
  (n+1)-th, the (2n+1)-th, ... of them. The argument and result are the counter of the
  statement and the lines it has written.
\<close>

definition LOG_EVERY_N :: "nat \<Rightarrow> string \<Rightarrow> nat \<times> string list \<Rightarrow> nat \<times> string list" where
  "LOG_EVERY_N n msg lg =
     (fst lg + 1, if fst lg mod n = 0 then snd lg @ [msg] else snd lg)"

definition put :: "string \<Rightarrow> page_state \<Rightarrow> page_state" where
  "put str ps = ps\<lparr>page_output := page_output ps @ str\<rparr>"

text \<open>The table row of one thread, from what \<open>stats\<close> holds after the call.\<close>

definition thread_row :: "collaborators \<Rightarrow> ThreadDescriptor \<Rightarrow> ThreadStats \<Rightarrow> string" where
  "thread_row co thread stats =
     ''<tr><td>'' @ desc_name thread @ ''</td><td>''
     @ stream_seconds co (user_ns stats) @ ''</td><td>''
     @ stream_seconds co (kernel_ns stats) @ ''</td><td>''
     @ stream_seconds co (iowait_ns stats) @ ''</td></tr>''"

text \<open>The body of the loop of \<^verbatim>\<open>PrintThreadCategoryRows\<close>, for one entry of the
  category.\<close>

definition print_thread_row :: "collaborators \<Rightarrow> ThreadDescriptor \<Rightarrow> page_state \<Rightarrow> page_state" where
  "print_thread_row co thread ps =
     (let (status, stats) = GetThreadStats co (desc_thread_id thread) (ThreadStats_ctor co);
          ps1 = ps\<lparr>stats_calls := stats_calls ps @ [desc_thread_id thread]\<rparr>;
          lg = (if \<not> ok status
                then LOG_EVERY_N 100
                       (''Could not get per-thread statistics: '' @ ToString status)
                       (log_occurrences ps1, log_INFO ps1)
                else (log_occurrences ps1, log_INFO ps1));
          ps2 = ps1\<lparr>log_occurrences := fst lg, log_INFO := snd lg\<rparr>
      in put (thread_row co thread stats) ps2)"

fun PrintThreadCategoryRows :: "collaborators \<Rightarrow> ThreadCategory \<Rightarrow> page_state \<Rightarrow> page_state" where
  "PrintThreadCategoryRows co [] ps = ps"
| "PrintThreadCategoryRows co (thread # category) ps =
     PrintThreadCategoryRows co category (print_thread_row co (snd thread) ps)"

fun print_categories :: "collaborators \<Rightarrow> ThreadCategory list \<Rightarrow> page_state \<Rightarrow> page_state" where
  "print_categories co [] ps = ps"
| "print_categories co (category # categories_to_print) ps =
     print_categories co categories_to_print (PrintThreadCategoryRows co category ps)"

definition table_head :: string where
  "table_head =
     ''<table class='' @ apostrophe @ ''table table-hover table-border'' @ apostrophe @ ''>''
     @ ''<tr><th>Thread name</th><th>Cumulative User CPU(s)</th>''
     @ ''<th>Cumulative Kernel CPU(s)</th>''
     @ ''<th>Cumulative IO-wait(s)</th></tr>''"

text \<open>The link to one category on the overview page.\<close>

definition category_link :: "collaborators \<Rightarrow> string \<times> ThreadCategory \<Rightarrow> string" where
  "category_link co category =
     ''<a href='' @ apostrophe @ ''/threadz?group='' @ UrlEncode co (fst category)
     @ apostrophe @ ''><h3>'' @ fst category @ '' : ''
     @ stream_nat (map_size (snd category)) @ ''</h3></a>''"

fun print_links :: "collaborators \<Rightarrow> ThreadCategoryMap \<Rightarrow> page_state \<Rightarrow> page_state" where
  "print_links co [] ps = ps"
| "print_links co (category # rest) ps = print_links co rest (put (category_link co category) ps)"

text \<open>
  \<^verbatim>\<open>ThreadPathHandler(args, output)\<close>. The argument map is read with
  \<^verbatim>\<open>args.find("group")\<close> only. The name compared with \<^verbatim>\<open>"all"\<close> and looked up in
  the category map is the escaped one.
\<close>

definition ThreadPathHandler ::
  "collaborators \<Rightarrow> ThreadMgr \<Rightarrow> (string \<rightharpoonup> string) \<Rightarrow> page_state \<Rightarrow> ThreadMgr \<times> page_state" where
  "ThreadPathHandler co s args ps =
     (case args ''group'' of
        Some category_name \<Rightarrow>
          (let group = EscapeForHtmlToString co category_name;
               ps1 = put (''<h2>Thread Group: '' @ group @ ''</h2>'' @ endl) ps
           in if group \<noteq> ''all''
              then (case map_find group (thread_categories s) of
                      None \<Rightarrow>
                        (s, put (''Thread group '' @ apostrophe @ group @ apostrophe
                                 @ '' not found'' @ endl) ps1)
                    | Some category \<Rightarrow>
                        (let ps2 = put (''<h3>'' @ group @ '' : ''
                                        @ stream_nat (map_size category) @ ''</h3>'') ps1;
                             ps3 = put table_head ps2;
                             ps4 = print_categories co [category] ps3
                         in (s, put ''</table>'' ps4)))
              else (let categories_to_print = map snd (thread_categories s);
                        ps2 = put ''<h3>All Threads : </h3>'' ps1;
                        ps3 = put table_head ps2;
                        ps4 = print_categories co categories_to_print ps3
                    in (s, put ''</table>'' ps4)))
      | None \<Rightarrow>
          (let ps1 = put ''<h2>Thread Groups</h2>'' ps;
               ps2 = (if metrics_enabled s
                      then put (''<h4>'' @ stream_uint64 (current_num_threads_metric s)
                                @ '' thread(s) running'') ps1
                      else ps1);
               ps3 = put (''<a href='' @ apostrophe @ ''/threadz?group=all'' @ apostrophe
                          @ ''><h3>All Threads</h3>'') ps2
           in (s, print_links co (thread_categories s) ps3)))"

text \<open>
  For stating what a page holds: the outcome of the statistics call for a thread, and the
  row rendered from it.
\<close>

definition stats_of :: "collaborators \<Rightarrow> ThreadDescriptor \<Rightarrow> Status \<times> ThreadStats" where
  "stats_of co thread = GetThreadStats co (desc_thread_id thread) (ThreadStats_ctor co)"

definition stats_failed :: "collaborators \<Rightarrow> ThreadDescriptor \<Rightarrow> bool" where
  "stats_failed co thread = (\<not> ok (fst (stats_of co thread)))"

definition row_of :: "collaborators \<Rightarrow> ThreadDescriptor \<Rightarrow> string" where
  "row_of co thread = thread_row co thread (snd (stats_of co thread))"

text \<open>
  For stating what the log holds: the message \<^verbatim>\<open>PrintThreadCategoryRows\<close> passes to
  \<^verbatim>\<open>LOG_EVERY_N\<close> for a thread whose statistics call failed, and the messages that
  \<^verbatim>\<open>LOG_EVERY_N(INFO, 100)\<close> lets through out of a run of them when its counter stands
  at \<open>occ\<close>: those that arrive at a count divisible by 100.
\<close>

definition failure_message :: "collaborators \<Rightarrow> ThreadDescriptor \<Rightarrow> string" where
  "failure_message co thread =
     ''Could not get per-thread statistics: '' @ ToString (fst (stats_of co thread))"

fun throttled :: "nat \<Rightarrow> string list \<Rightarrow> string list" where
  "throttled occ [] = []"
| "throttled occ (msg # msgs) =
     (if occ mod 100 = 0 then [msg] else []) @ throttled (occ + 1) msgs"

text \<open>
  One choice of the parameters, to run the page handler on examples: the statistics of
  the thread with OS id 11 cannot be read (the call fails and leaves \<open>stats\<close> as
  constructed), every other thread has used 2, 3 and 5 seconds; a default-constructed
  \<^verbatim>\<open>ThreadStats\<close> is zero; escaping and URL encoding leave a name of letters as it is;
  \<open>whole_seconds\<close> prints the whole seconds only, which is what the stream prints for
  \<^verbatim>\<open>static_cast<double>(ns) / 1e9\<close> at the multiples of a second used in the examples
  (it is not the code's formatting for other values).
\<close>

definition example_GetThreadStats :: "int64_t \<Rightarrow> ThreadStats \<Rightarrow> Status \<times> ThreadStats" where
  "example_GetThreadStats tid stats =
     (if tid = 11 then (Status_Error ''IO error: Could not open ifstream'', stats)
      else (Status_OK, \<lparr>user_ns = 2000000000, kernel_ns = 3000000000,
                         iowait_ns = 5000000000\<rparr>))"

definition whole_seconds :: "int64_t \<Rightarrow> string" where
  "whole_seconds ns = stream_int (sint ns div 1000000000)"

definition example_collaborators :: collaborators where
  "example_collaborators =
     \<lparr>GetThreadStats = example_GetThreadStats,
      ThreadStats_ctor = \<lparr>user_ns = 0, kernel_ns = 0, iowait_ns = 0\<rparr>,
      EscapeForHtmlToString = (\<lambda>str. str),
      UrlEncode = (\<lambda>str. str),
      stream_seconds = whole_seconds\<rparr>"




definition empty_page :: page_state where
  "empty_page = \<lparr>page_output = [], stats_calls = [], log_occurrences = 0, log_INFO = []\<rparr>"

subsection \<open>Thread: the start handshake\<close>

text \<open>
  The members \<^verbatim>\<open>name_\<close>, \<^verbatim>\<open>category_\<close> and \<^verbatim>\<open>tid_\<close> of a \<^verbatim>\<open>Thread\<close> object (the
  fields \<open>thread_name\<close>, \<open>thread_category\<close> and \<open>thread_tid\<close>). The constant
  \<^verbatim>\<open>UNINITIALISED_THREAD_ID\<close> is declared in \<^verbatim>\<open>thread.h\<close>, which is not among the
  sources: it is a parameter, together with what the platform answers in the child:
  the result of \<^verbatim>\<open>syscall(SYS_gettid)\<close>, the text of \<^verbatim>\<open>ErrnoToString(errno)\<close> and
  the child's \<^verbatim>\<open>boost::this_thread::get_id()\<close>.
\<close>

record Thread =
  thread_name :: string
  thread_category :: string
  thread_tid :: int64_t

record start_env =
  UNINITIALISED_THREAD_ID :: int64_t
  gettid_result :: int64_t
  errno_string :: string
  child_id :: boost_thread_id

definition THREAD_NOT_ASSIGNED :: Atomic32 where
  "THREAD_NOT_ASSIGNED = 0"

definition THREAD_ASSIGNED :: Atomic32 where
  "THREAD_ASSIGNED = 1"

definition THREAD_RUNNING :: Atomic32 where
  "THREAD_RUNNING = 2"

text \<open>The local variables of \<^verbatim>\<open>SuperviseThread\<close> that outlive the handshake.\<close>

record supervisor_locals =
  system_tid :: int64_t
  category_copy :: string
  name_copy :: string

text \<open>
  \<^verbatim>\<open>SuperviseThread\<close> up to and including its call of \<open>AddThread\<close>: it resolves the
  OS thread id (logging when the call returned -1), copies the category, builds the
  name from the supplied one (or \<^verbatim>\<open>"thread"\<close>), a dash and the id, replaces an empty
  category by \<^verbatim>\<open>"no-category"\<close>, and registers itself under its own identity.
  The result is the locals, the registry and the log of this \<^verbatim>\<open>LOG_EVERY_N\<close>.
\<close>

definition SuperviseThread_register ::
  "start_env \<Rightarrow> string \<Rightarrow> string \<Rightarrow> ThreadMgr \<Rightarrow> nat \<times> string list
     \<Rightarrow> supervisor_locals \<times> ThreadMgr \<times> (nat \<times> string list)" where
  "SuperviseThread_register env name category mgr lg =
     (let system_tid = gettid_result env;
          lg1 = (if system_tid = - 1
                 then LOG_EVERY_N 100 (''Could not determine thread ID: '' @ errno_string env) lg
                 else lg);
          category_copy = category;
          name_copy = (if name = [] then ''thread'' else name) @ ''-'' @ stream_int64 system_tid;
          category_copy = (if category_copy = [] then ''no-category'' else category_copy)
      in (\<lparr>system_tid = system_tid, category_copy = category_copy, name_copy = name_copy\<rparr>,
          AddThread mgr (child_id env) name_copy category_copy system_tid,
          lg1))"

text \<open>
  The handshake as an interleaving of atomic steps of the launcher (\<^verbatim>\<open>StartThread\<close>),
  of the child (\<^verbatim>\<open>SuperviseThread\<close>) and of other threads that call the registry. A
  step is one access to shared memory (an atomic load or store of \<^verbatim>\<open>c_p_tid\<close> or
  \<^verbatim>\<open>p_c_assigned\<close>, or one registry call under its lock) together with the local
  computation before it; atomic accesses take effect in the order of the steps. The
  program counters name the next statement of each side.
\<close>

datatype launcher_pc = L_entry | L_create | L_signal | L_spin | L_read | L_returned

datatype child_pc =
  C_not_started | C_register | C_wait | C_set_running | C_report | C_functor | C_remove
| C_finished

record handshake =
  thread_manager :: "ThreadMgr option"
  thread_obj :: Thread
  c_p_tid :: Atomic64
  p_c_assigned :: Atomic32
  launcher :: launcher_pc
  child :: child_pc
  locals :: supervisor_locals
  tid_log :: "nat \<times> string list"

text \<open>
  \<^verbatim>\<open>StartThread\<close>: the two assertions and the initialisation of the two words on its
  stack; the creation of the thread; the release store of \<^verbatim>\<open>THREAD_ASSIGNED\<close>; the
  spin on \<^verbatim>\<open>c_p_tid\<close> (a step that finds the sentinel stays in the loop); the second
  load, stored into \<^verbatim>\<open>tid_\<close>.
\<close>

definition launcher_step :: "start_env \<Rightarrow> handshake \<Rightarrow> error + handshake" where
  "launcher_step env h =
     (case launcher h of
        L_entry \<Rightarrow>
          if thread_manager h = None
          then Inl (DCheckFailed ''Thread created before InitThreading called'')
          else if thread_tid (thread_obj h) \<noteq> UNINITIALISED_THREAD_ID env
          then Inl (DCheckFailed ''StartThread called twice'')
          else Inr (h\<lparr>c_p_tid := UNINITIALISED_THREAD_ID env,
                      p_c_assigned := THREAD_NOT_ASSIGNED, launcher := L_create\<rparr>)
      | L_create \<Rightarrow> Inr (h\<lparr>child := C_register, launcher := L_signal\<rparr>)
      | L_signal \<Rightarrow> Inr (h\<lparr>p_c_assigned := THREAD_ASSIGNED, launcher := L_spin\<rparr>)
      | L_spin \<Rightarrow>
          Inr (if c_p_tid h = UNINITIALISED_THREAD_ID env then h else h\<lparr>launcher := L_read\<rparr>)
      | L_read \<Rightarrow>
          Inr (h\<lparr>thread_obj := (thread_obj h)\<lparr>thread_tid := c_p_tid h\<rparr>, launcher := L_returned\<rparr>)
      | L_returned \<Rightarrow> Inr h)"

text \<open>
  \<^verbatim>\<open>SuperviseThread\<close>: registration; \<^verbatim>\<open>SpinWait\<close> (the loop on
  \<^verbatim>\<open>p_c_assigned\<close>, then the store of \<^verbatim>\<open>THREAD_RUNNING\<close>); the release store of
  the id into \<^verbatim>\<open>c_p_tid\<close>; the user's functor (it has no access to the state
  modelled here); \<open>RemoveThread\<close>. The name and category the child reads are the copies
  bound when the thread was created, equal to the members of the object. Dereferencing
  a null \<^verbatim>\<open>thread_mgr_ref\<close> is the error \<open>NullPointer\<close>.
\<close>

definition child_step :: "start_env \<Rightarrow> handshake \<Rightarrow> error + handshake" where
  "child_step env h =
     (case child h of
        C_not_started \<Rightarrow> Inr h
      | C_register \<Rightarrow>
          (case thread_manager h of
             None \<Rightarrow> Inl (NullPointer ''thread_mgr_ref'')
           | Some mgr \<Rightarrow>
               (let (l, mgr', lg) =
                      SuperviseThread_register env (thread_name (thread_obj h))
                        (thread_category (thread_obj h)) mgr (tid_log h)
                in Inr (h\<lparr>locals := l, thread_manager := Some mgr', tid_log := lg,
                          child := C_wait\<rparr>)))
      | C_wait \<Rightarrow>
          Inr (if p_c_assigned h \<noteq> THREAD_ASSIGNED then h else h\<lparr>child := C_set_running\<rparr>)
      | C_set_running \<Rightarrow> Inr (h\<lparr>p_c_assigned := THREAD_RUNNING, child := C_report\<rparr>)
      | C_report \<Rightarrow> Inr (h\<lparr>c_p_tid := system_tid (locals h), child := C_functor\<rparr>)
      | C_functor \<Rightarrow> Inr (h\<lparr>child := C_remove\<rparr>)
      | C_remove \<Rightarrow>
          (case thread_manager h of
             None \<Rightarrow> Inl (NullPointer ''thread_mgr_ref'')
           | Some mgr \<Rightarrow>
               (case RemoveThread mgr (child_id env) (category_copy (locals h)) of
                  Inl e \<Rightarrow> Inl e
                | Inr mgr' \<Rightarrow> Inr (h\<lparr>thread_manager := Some mgr', child := C_finished\<rparr>)))
      | C_finished \<Rightarrow> Inr h)"

text \<open>
  A registry call of another thread. An identity belongs to one thread, so a call with
  the child's identity is not a call of another thread and changes nothing here; nor
  does a call before the registry exists.
\<close>

fun call_identity :: "registry_call \<Rightarrow> boost_thread_id option" where
  "call_identity (Add thread name category tid) = Some thread"
| "call_identity (Remove boost_id category) = Some boost_id"
| "call_identity Instrument = None"

definition other_step :: "start_env \<Rightarrow> registry_call \<Rightarrow> handshake \<Rightarrow> error + handshake" where
  "other_step env call h =
     (case thread_manager h of
        None \<Rightarrow> Inr h
      | Some mgr \<Rightarrow>
          if call_identity call = Some (child_id env) then Inr h
          else (case run_call mgr call of
                  Inl e \<Rightarrow> Inl e
                | Inr mgr' \<Rightarrow> Inr (h\<lparr>thread_manager := Some mgr'\<rparr>)))"

datatype event = Launcher | Child | Other registry_call

fun step :: "start_env \<Rightarrow> event \<Rightarrow> handshake \<Rightarrow> error + handshake" where
  "step env Launcher h = launcher_step env h"
| "step env Child h = child_step env h"
| "step env (Other call) h = other_step env call h"

text \<open>A schedule is a list of events; the run stops at the first error (the process
  aborts).\<close>

fun run :: "start_env \<Rightarrow> event list \<Rightarrow> handshake \<Rightarrow> error + handshake" where
  "run env [] h = Inr h"
| "run env (e # es) h = (case step env e h of Inl err \<Rightarrow> Inl err | Inr h' \<Rightarrow> run env es h')"

text \<open>
  What holds in every state of the handshake. Before the child has stored its id
  (\<open>before_report\<close>) the slot \<^verbatim>\<open>c_p_tid\<close> still holds the sentinel; afterwards it holds
  the id the child resolved. Between \<open>AddThread\<close> and \<open>RemoveThread\<close> (\<open>in_registry\<close>)
  the registry holds the child's descriptor.
\<close>

fun before_report :: "child_pc \<Rightarrow> bool" where
  "before_report C_functor = False"
| "before_report C_remove = False"
| "before_report C_finished = False"
| "before_report pc = True"

fun in_registry :: "child_pc \<Rightarrow> bool" where
  "in_registry C_not_started = False"
| "in_registry C_register = False"
| "in_registry C_finished = False"
| "in_registry pc = True"

definition holds_descriptor :: "start_env \<Rightarrow> handshake \<Rightarrow> bool" where
  "holds_descriptor env h =
     (case thread_manager h of
        None \<Rightarrow> False
      | Some mgr \<Rightarrow>
          lookup_thread mgr (child_id env) (category_copy (locals h))
            = Some (ThreadDescriptor_ctor (category_copy (locals h)) (name_copy (locals h))
                      (system_tid (locals h))))"

definition handshake_inv :: "start_env \<Rightarrow> handshake \<Rightarrow> bool" where
  "handshake_inv env h =
     ((launcher h = L_entry \<or> launcher h = L_create \<longrightarrow> child h = C_not_started)
      \<and> (launcher h \<noteq> L_entry \<longrightarrow> thread_manager h \<noteq> None)
      \<and> (launcher h \<noteq> L_entry \<and> before_report (child h) \<longrightarrow>
            c_p_tid h = UNINITIALISED_THREAD_ID env)
      \<and> (\<not> before_report (child h) \<longrightarrow> c_p_tid h = system_tid (locals h))
      \<and> (launcher h = L_read \<or> launcher h = L_returned \<longrightarrow>
            c_p_tid h \<noteq> UNINITIALISED_THREAD_ID env)
      \<and> (launcher h = L_returned \<longrightarrow> thread_tid (thread_obj h) = c_p_tid h)
      \<and> (in_registry (child h) \<longrightarrow> holds_descriptor env h)
      \<and> (child h \<noteq> C_not_started \<and> child h \<noteq> C_register \<longrightarrow>
            system_tid (locals h) = gettid_result env))"

text \<open>
  One start, to run the handshake on: the sentinel is -2, the child resolves the OS id
  4711 and has the identity 7; the registry is freshly constructed; the thread is named
  \<^verbatim>\<open>reactor\<close> and has no category. In the schedule the child registers and finds
  \<^verbatim>\<open>p_c_assigned\<close> not yet set, the launcher signals and finds \<^verbatim>\<open>c_p_tid\<close> not yet
  set, the child leaves its loop, stores \<^verbatim>\<open>THREAD_RUNNING\<close> and its id, the launcher
  leaves its loop and returns, and the child runs the functor.
\<close>

definition example_env :: start_env where
  "example_env =
     \<lparr>UNINITIALISED_THREAD_ID = - 2, gettid_result = 4711, errno_string = ''Success'',
      child_id = 7\<rparr>"

definition example_start :: handshake where
  "example_start =
     \<lparr>thread_manager = Some (ThreadMgr_ctor 0 0),
      thread_obj = \<lparr>thread_name = ''reactor'', thread_category = [], thread_tid = - 2\<rparr>,
      c_p_tid = 0, p_c_assigned = 0, launcher = L_entry, child = C_not_started,
      locals = \<lparr>system_tid = 0, category_copy = [], name_copy = []\<rparr>,
      tid_log = (0, [])\<rparr>"

definition example_schedule :: "event list" where
  "example_schedule =
     [Launcher, Launcher, Child, Child, Launcher, Launcher, Child, Child, Child,
      Launcher, Launcher, Child]"

text \<open>The state this schedule ends in.\<close>

definition example_registry_state :: ThreadMgr where
  "example_registry_state =
     \<lparr>thread_categories =
        [(''no-category'',
          [(7, \<lparr>desc_name = ''reactor-4711'', desc_category = ''no-category'',
                 desc_thread_id = 4711\<rparr>)])],
      metrics_enabled = False, total_threads_metric = 0, current_num_threads_metric = 0\<rparr>"

definition example_final :: handshake where
  "example_final =
     \<lparr>thread_manager = Some example_registry_state,
      thread_obj = \<lparr>thread_name = ''reactor'', thread_category = [], thread_tid = 4711\<rparr>,
      c_p_tid = 4711, p_c_assigned = 2, launcher = L_returned, child = C_remove,
      locals = \<lparr>system_tid = 4711, category_copy = ''no-category'',
                name_copy = ''reactor-4711''\<rparr>,
      tid_log = (0, [])\<rparr>"

section \<open>Properties\<close>

subsection \<open>std::map operations\<close>

lemma map_find_assign:
  "map_find k' (map_assign k v m) = (if k' = k then Some v else map_find k' m)"
  by (induction m) (auto simp: map_find_def)

lemma map_find_modify:
  "map_find k' (map_modify k f m) =
     (if k' = k then map_option f (map_find k m) else map_find k' m)"
  by (induction m) (auto simp: map_find_def)

lemma keys_modify: "map fst (map_modify k f m) = map fst m"
  by (induction m) auto

lemma keys_assign: "fst ` set (map_assign k v m) = insert k (fst ` set m)"
  by (induction m) force+

lemma map_find_None_iff: "map_find k m = None \<longleftrightarrow> k \<notin> fst ` set m"
  by (simp add: map_find_def map_of_eq_None_iff)

lemma map_ok_Cons: "map_ok ((k, v) # m) \<longleftrightarrow> (\<forall>k' \<in> fst ` set m. k < k') \<and> map_ok m"
  by (auto simp: map_ok_def)

lemma map_ok_assign: "map_ok m \<Longrightarrow> map_ok (map_assign k v m)"
proof (induction m)
  case Nil
  then show ?case by (simp add: map_ok_def)
next
  case (Cons p m)
  obtain k' v' where p: "p = (k', v')" by (cases p)
  from Cons.prems have tl: "map_ok m" and hd: "\<forall>x \<in> fst ` set m. k' < x"
    by (simp_all add: p map_ok_Cons)
  show ?case
  proof (cases "k < k'")
    case True
    then have "\<forall>x \<in> fst ` set m. k < x" using hd by (meson less_trans)
    with True Cons.prems show ?thesis by (simp add: p map_ok_Cons)
  next
    case False
    show ?thesis
    proof (cases "k = k'")
      case True
      with Cons.prems show ?thesis by (simp add: p map_ok_Cons)
    next
      case neq: False
      with False have "k' < k" by simp
      with hd have "\<forall>x \<in> fst ` set (map_assign k v m). k' < x"
        unfolding keys_assign by simp
      with False neq Cons.IH[OF tl] show ?thesis by (simp add: p map_ok_Cons)
    qed
  qed
qed

lemma map_ok_modify: "map_ok m \<Longrightarrow> map_ok (map_modify k f m)"
  by (simp add: map_ok_def keys_modify)

lemma set_erase: "set (map_erase k m) \<subseteq> set m"
  by (induction m) (auto split: if_splits)

lemma keys_erase: "fst ` set (map_erase k m) \<subseteq> fst ` set m"
  by (rule image_mono) (rule set_erase)

lemma map_ok_erase: "map_ok m \<Longrightarrow> map_ok (map_erase k m)"
proof (induction m)
  case Nil
  then show ?case by simp
next
  case (Cons p m)
  obtain k' v' where p: "p = (k', v')" by (cases p)
  from Cons.prems have tl: "map_ok m" and hd: "\<forall>x \<in> fst ` set m. k' < x"
    by (simp_all add: p map_ok_Cons)
  from hd keys_erase[of k m] have "\<forall>x \<in> fst ` set (map_erase k m). k' < x" by blast
  with Cons.IH[OF tl] tl show ?case by (simp add: p map_ok_Cons)
qed

lemma size_assign_new: "map_find k m = None \<Longrightarrow> map_size (map_assign k v m) = Suc (map_size m)"
  by (induction m) (auto simp: map_find_def map_size_def)

lemma size_erase_old: "map_find k m \<noteq> None \<Longrightarrow> Suc (map_size (map_erase k m)) = map_size m"
  by (induction m) (auto simp: map_find_def map_size_def)

lemma erase_absent: "map_find k m = None \<Longrightarrow> map_erase k m = m"
  by (induction m) (auto simp: map_find_def)

lemma map_find_erase_other: "k' \<noteq> k \<Longrightarrow> map_find k' (map_erase k m) = map_find k' m"
  by (induction m) (auto simp: map_find_def)

lemma map_find_erase_same: "map_ok m \<Longrightarrow> map_find k (map_erase k m) = None"
proof (induction m)
  case Nil
  then show ?case by (simp add: map_find_def)
next
  case (Cons p m)
  obtain k' v' where p: "p = (k', v')" by (cases p)
  from Cons.prems have tl: "map_ok m" and hd: "\<forall>x \<in> fst ` set m. k' < x"
    by (simp_all add: p map_ok_Cons)
  show ?case
  proof (cases "k = k'")
    case True
    with hd have "k \<notin> fst ` set m" by auto
    with True show ?thesis by (simp add: p map_find_None_iff)
  next
    case False
    with Cons.IH[OF tl] show ?thesis by (simp add: p map_find_def)
  qed
qed


lemma map_modify_same: "map_find k m = Some v \<Longrightarrow> f v = v \<Longrightarrow> map_modify k f m = m"
  by (induction m) (auto simp: map_find_def split: if_splits)

lemma run_calls_append:
  "run_calls s (xs @ ys) = (case run_calls s xs of Inl e \<Rightarrow> Inl e | Inr s' \<Rightarrow> run_calls s' ys)"
  by (induction xs arbitrary: s) (auto split: sum.splits)

lemma AddThread_keys:
  "fst ` set (thread_categories (AddThread s thread name category tid))
     = insert category (fst ` set (thread_categories s))"
  by (simp add: AddThread_def Let_def keys_assign)

lemma RemoveThread_keys:
  "RemoveThread s boost_id category = Inr s' \<Longrightarrow>
     map fst (thread_categories s') = map fst (thread_categories s)"
  by (auto simp: RemoveThread_def Let_def keys_modify split: option.splits)

lemma StartInstrumentation_categories:
  "StartInstrumentation s r w = Inr s' \<Longrightarrow> thread_categories s' = thread_categories s"
  by (auto simp: StartInstrumentation_def split: if_splits)

lemma run_call_keys:
  "run_call s c = Inr s' \<Longrightarrow> fst ` set (thread_categories s) \<subseteq> fst ` set (thread_categories s')"
proof (cases c)
  case (Add thread name category tid)
  assume "run_call s c = Inr s'"
  with Add have "s' = AddThread s thread name category tid" by simp
  then show ?thesis by (simp add: AddThread_keys subset_insertI)
next
  case (Remove boost_id category)
  assume "run_call s c = Inr s'"
  with Remove have "map fst (thread_categories s') = map fst (thread_categories s)"
    by (simp add: RemoveThread_keys)
  then have "set (map fst (thread_categories s')) = set (map fst (thread_categories s))" by simp
  then show ?thesis by simp
next
  case Instrument
  assume "run_call s c = Inr s'"
  with Instrument show ?thesis by (simp add: StartInstrumentation_categories)
qed

lemma run_calls_keys:
  "run_calls s calls = Inr s' \<Longrightarrow> fst ` set (thread_categories s) \<subseteq> fst ` set (thread_categories s')"
proof (induction calls arbitrary: s)
  case Nil
  then show ?case by simp
next
  case (Cons c calls)
  then obtain s1 where s1: "run_call s c = Inr s1" and rest: "run_calls s1 calls = Inr s'"
    by (auto split: sum.splits)
  from run_call_keys[OF s1] Cons.IH[OF rest] show ?case by blast
qed

subsection \<open>Categories are never removed\<close>

text \<open>
  Claim C9. A category name passed to \<open>AddThread\<close> is a key of the category map after
  the call and stays one through every later sequence of \<open>AddThread\<close>,
  \<open>RemoveThread\<close> and \<open>StartInstrumentation\<close> calls that runs without a failed
  assertion: \<open>RemoveThread\<close> erases the identity inside the category and leaves the
  (possibly empty) category in place.
\<close>

theorem category_stays_a_key:
  assumes "run_calls (AddThread s thread name category tid) calls = Inr s'"
  shows "map_find category (thread_categories s') \<noteq> None"
proof -
  have "category \<in> fst ` set (thread_categories (AddThread s thread name category tid))"
    by (simp add: AddThread_keys)
  with run_calls_keys[OF assms] have "category \<in> fst ` set (thread_categories s')" by blast
  then show ?thesis by (simp add: map_find_None_iff)
qed

theorem category_stays_a_key_witness:
  "run_calls (AddThread (ThreadMgr_ctor 0 0) 1 ''t-10'' ''io'' 10) [Remove 1 ''io'', Instrument, Add 2 ''u-11'' ''rpc'' 11, Remove 2 ''rpc'']
     = Inr \<lparr>thread_categories = [(''io'', []), (''rpc'', [])], metrics_enabled = True,
            total_threads_metric = 1, current_num_threads_metric = 0\<rparr>
   \<and> map_find ''io'' (thread_categories \<lparr>thread_categories = [(''io'', []), (''rpc'', [])], metrics_enabled = True,
            total_threads_metric = 1, current_num_threads_metric = 0\<rparr>) \<noteq> None"
proof -
  have run: "run_calls (AddThread (ThreadMgr_ctor 0 0) 1 ''t-10'' ''io'' 10) [Remove 1 ''io'', Instrument, Add 2 ''u-11'' ''rpc'' 11, Remove 2 ''rpc'']
     = Inr \<lparr>thread_categories = [(''io'', []), (''rpc'', [])], metrics_enabled = True,
            total_threads_metric = 1, current_num_threads_metric = 0\<rparr>"
    by (simp add: AddThread_def RemoveThread_def StartInstrumentation_def ThreadMgr_ctor_def
        ThreadDescriptor_ctor_def map_find_def Let_def)
  from category_stays_a_key[OF run] run show ?thesis by simp
qed

subsection \<open>Counters before instrumentation\<close>

lemma RemoveThread_counters_off:
  "\<not> metrics_enabled s \<Longrightarrow> RemoveThread s boost_id category = Inr s' \<Longrightarrow>
     s' = s\<lparr>thread_categories := thread_categories s'\<rparr>"
  by (auto simp: RemoveThread_def Let_def split: option.splits)

lemma AddThread_counters_off:
  "\<not> metrics_enabled s \<Longrightarrow>
     AddThread s thread name category tid =
       s\<lparr>thread_categories := thread_categories (AddThread s thread name category tid)\<rparr>"
  by (simp add: AddThread_def Let_def)

lemma run_call_counters_off:
  assumes "\<not> metrics_enabled s" and "c \<noteq> Instrument" and "run_call s c = Inr s'"
  shows "s' = s\<lparr>thread_categories := thread_categories s'\<rparr>"
proof (cases c)
  case (Add thread name category tid)
  with assms(3) have "s' = AddThread s thread name category tid" by simp
  with AddThread_counters_off[OF assms(1)] show ?thesis by simp
next
  case (Remove boost_id category)
  with assms(3) have "RemoveThread s boost_id category = Inr s'" by simp
  with RemoveThread_counters_off[OF assms(1)] show ?thesis by simp
next
  case Instrument
  with assms(2) show ?thesis by simp
qed

lemma run_calls_counters_off:
  "\<not> metrics_enabled s \<Longrightarrow> Instrument \<notin> set calls \<Longrightarrow> run_calls s calls = Inr s' \<Longrightarrow>
     s' = s\<lparr>thread_categories := thread_categories s'\<rparr>"
proof (induction calls arbitrary: s)
  case Nil
  then show ?case by simp
next
  case (Cons c calls)
  from Cons.prems(3) obtain s1 where s1: "run_call s c = Inr s1"
    and rest: "run_calls s1 calls = Inr s'"
    by (auto split: sum.splits)
  from Cons.prems(2) have c: "c \<noteq> Instrument" and tl: "Instrument \<notin> set calls" by auto
  have eq1: "s1 = s\<lparr>thread_categories := thread_categories s1\<rparr>"
    by (rule run_call_counters_off[OF Cons.prems(1) c s1])
  have "metrics_enabled s1 = metrics_enabled s"
    by (subst eq1) simp
  with Cons.prems(1) have off1: "\<not> metrics_enabled s1" by simp
  have "s' = s1\<lparr>thread_categories := thread_categories s'\<rparr>"
    by (rule Cons.IH[OF off1 tl rest])
  also have "\<dots> = s\<lparr>thread_categories := thread_categories s'\<rparr>"
    by (subst eq1) simp
  finally show ?case .
qed

text \<open>
  Claim C8. While metrics are disabled (no \<open>StartInstrumentation\<close> yet, and none among
  the calls), every sequence of \<open>AddThread\<close> and \<open>RemoveThread\<close> calls that runs without
  a failed assertion leaves both counters as they were: the final state is the initial
  one with only the category maps replaced.
\<close>

theorem counters_untouched_before_instrumentation:
  assumes "\<not> metrics_enabled s" and "Instrument \<notin> set calls" and "run_calls s calls = Inr s'"
  shows "ReadNumTotalThreads s' = ReadNumTotalThreads s
       \<and> ReadNumCurrentThreads s' = ReadNumCurrentThreads s
       \<and> s' = s\<lparr>thread_categories := thread_categories s'\<rparr>"
proof -
  have eq: "s' = s\<lparr>thread_categories := thread_categories s'\<rparr>"
    by (rule run_calls_counters_off[OF assms])
  have "total_threads_metric s' = total_threads_metric s"
    by (subst eq) simp
  moreover have "current_num_threads_metric s' = current_num_threads_metric s"
    by (subst eq) simp
  ultimately show ?thesis using eq
    by (simp add: ReadNumTotalThreads_def ReadNumCurrentThreads_def)
qed


theorem counters_untouched_before_instrumentation_witness:
  "\<not> metrics_enabled (ThreadMgr_ctor 5 7)
   \<and> Instrument \<notin> set [Add 1 ''t-10'' ''io'' 10, Remove 1 ''io'', Remove 1 ''io'']
   \<and> run_calls (ThreadMgr_ctor 5 7) [Add 1 ''t-10'' ''io'' 10, Remove 1 ''io'', Remove 1 ''io'']
       = Inr \<lparr>thread_categories = [(''io'', [])], metrics_enabled = False,
              total_threads_metric = 5, current_num_threads_metric = 7\<rparr>
   \<and> ReadNumTotalThreads \<lparr>thread_categories = [(''io'', [])], metrics_enabled = False,
              total_threads_metric = 5, current_num_threads_metric = 7\<rparr>
       = ReadNumTotalThreads (ThreadMgr_ctor 5 7)
   \<and> ReadNumCurrentThreads \<lparr>thread_categories = [(''io'', [])], metrics_enabled = False,
              total_threads_metric = 5, current_num_threads_metric = 7\<rparr>
       = ReadNumCurrentThreads (ThreadMgr_ctor 5 7)"
proof -
  have off: "\<not> metrics_enabled (ThreadMgr_ctor 5 7)"
    by (simp add: ThreadMgr_ctor_def)
  have no: "Instrument \<notin> set [Add 1 ''t-10'' ''io'' 10, Remove 1 ''io'', Remove 1 ''io'']"
    by simp
  have run: "run_calls (ThreadMgr_ctor 5 7) [Add 1 ''t-10'' ''io'' 10, Remove 1 ''io'', Remove 1 ''io'']
       = Inr \<lparr>thread_categories = [(''io'', [])], metrics_enabled = False,
              total_threads_metric = 5, current_num_threads_metric = 7\<rparr>"
    by (simp add: AddThread_def RemoveThread_def ThreadMgr_ctor_def
        ThreadDescriptor_ctor_def map_find_def Let_def)
  from counters_untouched_before_instrumentation[OF off no run]
  have total: "ReadNumTotalThreads \<lparr>thread_categories = [(''io'', [])], metrics_enabled = False,
              total_threads_metric = 5, current_num_threads_metric = 7\<rparr>
       = ReadNumTotalThreads (ThreadMgr_ctor 5 7)"
    and current: "ReadNumCurrentThreads \<lparr>thread_categories = [(''io'', [])], metrics_enabled = False,
              total_threads_metric = 5, current_num_threads_metric = 7\<rparr>
       = ReadNumCurrentThreads (ThreadMgr_ctor 5 7)"
    by blast+
  from off no run total current show ?thesis by (intro conjI)
qed

subsection \<open>Removing what is not registered\<close>

text \<open>
  Claim C1, as amended. \<open>RemoveThread\<close> on a category that is not a key of the category
  map fails the assertion \<^verbatim>\<open>DCHECK(category_it != thread_categories_.end())\<close>. On a
  category that is a key but does not hold the identity, it returns normally and leaves
  the category maps, the metrics flag and the counter of all threads ever created as they
  were; with metrics disabled the whole state is unchanged. (What happens to the counter
  of running threads with metrics enabled is not part of this statement.)
\<close>

theorem RemoveThread_of_unregistered:
  "(map_find category (thread_categories s) = None \<longrightarrow>
      RemoveThread s boost_id category
        = Inl (DCheckFailed ''category_it != thread_categories_.end()''))
   \<and> (\<forall>cat. map_find category (thread_categories s) = Some cat \<and> map_find boost_id cat = None \<longrightarrow>
        (\<exists>s'. RemoveThread s boost_id category = Inr s'
            \<and> thread_categories s' = thread_categories s
            \<and> metrics_enabled s' = metrics_enabled s
            \<and> ReadNumTotalThreads s' = ReadNumTotalThreads s
            \<and> (\<not> metrics_enabled s \<longrightarrow> s' = s)))"
proof (intro conjI impI allI)
  assume "map_find category (thread_categories s) = None"
  then show "RemoveThread s boost_id category
        = Inl (DCheckFailed ''category_it != thread_categories_.end()'')"
    by (simp add: RemoveThread_def)
next
  fix cat
  assume a: "map_find category (thread_categories s) = Some cat \<and> map_find boost_id cat = None"
  then have "map_erase boost_id cat = cat" by (simp add: erase_absent)
  with a have same: "map_modify category (map_erase boost_id) (thread_categories s) = thread_categories s"
    by (simp add: map_modify_same)
  show "\<exists>s'. RemoveThread s boost_id category = Inr s'
            \<and> thread_categories s' = thread_categories s
            \<and> metrics_enabled s' = metrics_enabled s
            \<and> ReadNumTotalThreads s' = ReadNumTotalThreads s
            \<and> (\<not> metrics_enabled s \<longrightarrow> s' = s)"
    using a same by (simp add: RemoveThread_def Let_def ReadNumTotalThreads_def)
qed

theorem RemoveThread_of_unregistered_witness:
  "map_find ''rpc'' (thread_categories (ThreadMgr_ctor 5 7)) = None
   \<and> RemoveThread (ThreadMgr_ctor 5 7) 1 ''rpc''
        = Inl (DCheckFailed ''category_it != thread_categories_.end()'')
   \<and> map_find ''io'' (thread_categories \<lparr>thread_categories = [(''io'', [])], metrics_enabled = False,
              total_threads_metric = 5, current_num_threads_metric = 7\<rparr>) = Some []
   \<and> map_find (1::nat) ([] :: ThreadCategory) = None
   \<and> RemoveThread \<lparr>thread_categories = [(''io'', [])], metrics_enabled = False,
              total_threads_metric = 5, current_num_threads_metric = 7\<rparr> 1 ''io''
        = Inr \<lparr>thread_categories = [(''io'', [])], metrics_enabled = False,
              total_threads_metric = 5, current_num_threads_metric = 7\<rparr>"
  using RemoveThread_of_unregistered[of "''rpc''" "ThreadMgr_ctor 5 7" 1]
    RemoveThread_of_unregistered[of "''io''" "\<lparr>thread_categories = [(''io'', [])], metrics_enabled = False,
              total_threads_metric = 5, current_num_threads_metric = 7\<rparr>" 1]
  by (simp add: ThreadMgr_ctor_def map_find_def)

theorem RemoveThread_of_unregistered_counterexample:
  "RemoveThread (ThreadMgr_ctor 0 0) 1 ''io''
     = Inl (DCheckFailed ''category_it != thread_categories_.end()'')
   \<and> run_calls (ThreadMgr_ctor 0 0) [Instrument, Add 1 ''t-10'' ''io'' 10, Remove 1 ''io'']
     = Inr \<lparr>thread_categories = [(''io'', [])], metrics_enabled = True,
            total_threads_metric = 1, current_num_threads_metric = 0\<rparr>
   \<and> RemoveThread \<lparr>thread_categories = [(''io'', [])], metrics_enabled = True,
            total_threads_metric = 1, current_num_threads_metric = 0\<rparr> 1 ''io''
     = Inr \<lparr>thread_categories = [(''io'', [])], metrics_enabled = True,
            total_threads_metric = 1, current_num_threads_metric = 18446744073709551615\<rparr>"
  by (simp add: AddThread_def RemoveThread_def StartInstrumentation_def ThreadMgr_ctor_def
        ThreadDescriptor_ctor_def map_find_def Let_def)

subsection \<open>Counters with metrics enabled\<close>

lemma map_find_smallest: "map_ok ((k', v') # m) \<Longrightarrow> k < k' \<Longrightarrow> map_find k ((k', v') # m) = None"
  by (auto simp: map_ok_Cons map_find_None_iff)

lemma sum_assign:
  fixes g :: "'v \<Rightarrow> nat"
  shows "map_ok m \<Longrightarrow>
    sum_list (map (\<lambda>p. g (snd p)) (map_assign k v m))
      + (case map_find k m of None \<Rightarrow> 0 | Some old \<Rightarrow> g old)
    = sum_list (map (\<lambda>p. g (snd p)) m) + g v"
proof (induction m)
  case Nil
  then show ?case by (simp add: map_find_def)
next
  case (Cons p m)
  obtain k' v' where p: "p = (k', v')" by (cases p)
  from Cons.prems have tl: "map_ok m" by (simp add: p map_ok_Cons)
  show ?case
  proof (cases "k < k'")
    case True
    with Cons.prems have "map_find k (p # m) = None"
      unfolding p by (rule map_find_smallest)
    with True show ?thesis by (simp add: p)
  next
    case False
    show ?thesis
    proof (cases "k = k'")
      case True
      then show ?thesis by (simp add: p map_find_def)
    next
      case neq: False
      then have "map_find k (p # m) = map_find k m" by (simp add: p map_find_def)
      with False neq Cons.IH[OF tl] show ?thesis by (simp add: p)
    qed
  qed
qed

lemma sum_modify:
  fixes g :: "'v \<Rightarrow> nat"
  shows "map_find k m = Some old \<Longrightarrow>
    sum_list (map (\<lambda>p. g (snd p)) (map_modify k f m)) + g old
    = sum_list (map (\<lambda>p. g (snd p)) m) + g (f old)"
  by (induction m) (auto simp: map_find_def split: if_splits)

lemma AddThread_num_registered:
  assumes ok: "map_ok (thread_categories s)" and new: "\<not> registered s thread category"
  shows "num_registered (AddThread s thread name category tid) = Suc (num_registered s)"
proof -
  define cat where "cat = (case map_find category (thread_categories s) of None \<Rightarrow> [] | Some c \<Rightarrow> c)"
  define d where "d = ThreadDescriptor_ctor category name tid"
  from new have "map_find thread cat = None"
    by (auto simp: registered_def lookup_thread_def cat_def map_find_def split: option.splits)
  then have grow: "map_size (map_assign thread d cat) = Suc (map_size cat)"
    by (rule size_assign_new)
  have old: "(case map_find category (thread_categories s) of None \<Rightarrow> 0 | Some old \<Rightarrow> map_size old)
              = map_size cat"
    by (simp add: cat_def map_size_def split: option.splits)
  have cats: "thread_categories (AddThread s thread name category tid)
     = map_assign category (map_assign thread d cat) (thread_categories s)"
    by (simp add: AddThread_def Let_def cat_def d_def)
  from sum_assign[OF ok, of map_size category "map_assign thread d cat"]
  show ?thesis unfolding num_registered_def cats old grow by simp
qed

lemma RemoveThread_num_registered:
  assumes reg: "registered s boost_id category" and run: "RemoveThread s boost_id category = Inr s'"
  shows "Suc (num_registered s') = num_registered s"
proof -
  from reg obtain cat where cat: "map_find category (thread_categories s) = Some cat"
    and there: "map_find boost_id cat \<noteq> None"
    by (auto simp: registered_def lookup_thread_def split: option.splits)
  from run cat have cats: "thread_categories s' = map_modify category (map_erase boost_id) (thread_categories s)"
    by (auto simp: RemoveThread_def Let_def split: if_splits)
  from size_erase_old[OF there] sum_modify[OF cat, of map_size "map_erase boost_id"]
  show ?thesis unfolding num_registered_def cats by simp
qed

lemma AddThread_map_ok:
  "map_ok (thread_categories s) \<Longrightarrow> map_ok (thread_categories (AddThread s thread name category tid))"
  by (simp add: AddThread_def Let_def map_ok_assign)

lemma RemoveThread_map_ok:
  "map_ok (thread_categories s) \<Longrightarrow> RemoveThread s boost_id category = Inr s' \<Longrightarrow>
     map_ok (thread_categories s')"
  by (auto simp: RemoveThread_def Let_def map_ok_modify split: option.splits)

lemma AddThread_metrics_on:
  "metrics_enabled s \<Longrightarrow>
     metrics_enabled (AddThread s thread name category tid)
     \<and> total_threads_metric (AddThread s thread name category tid) = total_threads_metric s + 1
     \<and> current_num_threads_metric (AddThread s thread name category tid)
         = current_num_threads_metric s + 1"
  by (simp add: AddThread_def Let_def)

lemma RemoveThread_metrics_on:
  "metrics_enabled s \<Longrightarrow> RemoveThread s boost_id category = Inr s' \<Longrightarrow>
     metrics_enabled s'
     \<and> total_threads_metric s' = total_threads_metric s
     \<and> current_num_threads_metric s' = current_num_threads_metric s - 1"
  by (auto simp: RemoveThread_def Let_def split: option.splits)

lemma calls_ok_counters:
  assumes "metrics_enabled s" and "map_ok (thread_categories s)" and "calls_ok s calls"
  shows "\<exists>s'. run_calls s calls = Inr s'
     \<and> current_num_threads_metric s' - of_nat (num_registered s')
         = current_num_threads_metric s - of_nat (num_registered s)
     \<and> total_threads_metric s' = total_threads_metric s + of_nat (count_adds calls)"
  using assms
proof (induction calls arbitrary: s)
  case Nil
  then show ?case by (simp add: count_adds_def)
next
  case (Cons c calls)
  from Cons.prems(3) obtain s1 where ok1: "call_ok s c" and s1: "run_call s c = Inr s1"
    and rest: "calls_ok s1 calls"
    by (auto split: sum.splits)
  have step: "metrics_enabled s1 \<and> map_ok (thread_categories s1)
      \<and> current_num_threads_metric s1 - of_nat (num_registered s1)
           = current_num_threads_metric s - of_nat (num_registered s)
      \<and> total_threads_metric s1 = total_threads_metric s + of_nat (count_adds [c])"
  proof (cases c)
    case (Add thread name category tid)
    with s1 have eq: "s1 = AddThread s thread name category tid" by simp
    from ok1 Add have "\<not> registered s thread category" by simp
    then have n: "num_registered s1 = Suc (num_registered s)"
      unfolding eq by (rule AddThread_num_registered[OF Cons.prems(2)])
    have m: "metrics_enabled s1 \<and> total_threads_metric s1 = total_threads_metric s + 1
       \<and> current_num_threads_metric s1 = current_num_threads_metric s + 1"
      unfolding eq by (rule AddThread_metrics_on[OF Cons.prems(1)])
    have o: "map_ok (thread_categories s1)"
      unfolding eq by (rule AddThread_map_ok[OF Cons.prems(2)])
    from n m o show ?thesis by (simp add: count_adds_def Add)
  next
    case (Remove boost_id category)
    with s1 have run: "RemoveThread s boost_id category = Inr s1" by simp
    from ok1 Remove have "registered s boost_id category" by simp
    from RemoveThread_num_registered[OF this run]
    have n: "num_registered s = Suc (num_registered s1)" by simp
    note m = RemoveThread_metrics_on[OF Cons.prems(1) run]
    note o = RemoveThread_map_ok[OF Cons.prems(2) run]
    from n m o show ?thesis by (simp add: count_adds_def Remove)
  next
    case Instrument
    with s1 have "s1 = s\<lparr>metrics_enabled := True\<rparr>"
      by (simp add: StartInstrumentation_def)
    with Cons.prems(1,2) show ?thesis
      by (simp add: count_adds_def num_registered_def Instrument)
  qed
  then have m1: "metrics_enabled s1" and o1: "map_ok (thread_categories s1)"
    and c1: "current_num_threads_metric s1 - of_nat (num_registered s1)
           = current_num_threads_metric s - of_nat (num_registered s)"
    and t1: "total_threads_metric s1 = total_threads_metric s + of_nat (count_adds [c])"
    by blast+
  from Cons.IH[OF m1 o1 rest] obtain s' where run': "run_calls s1 calls = Inr s'"
    and c': "current_num_threads_metric s' - of_nat (num_registered s')
         = current_num_threads_metric s1 - of_nat (num_registered s1)"
    and t': "total_threads_metric s' = total_threads_metric s1 + of_nat (count_adds calls)"
    by blast
  have "run_calls s (c # calls) = Inr s'" using s1 run' by simp
  moreover have "current_num_threads_metric s' - of_nat (num_registered s')
         = current_num_threads_metric s - of_nat (num_registered s)"
    using c1 c' by (rule trans[rotated])
  moreover have "total_threads_metric s' = total_threads_metric s + of_nat (count_adds (c # calls))"
    unfolding t' t1 by (simp add: count_adds_def)
  ultimately show ?case by blast
qed


lemma unat_plus_of_nat:
  fixes x :: "64 word"
  shows "unat x + n < 2 ^ 64 \<Longrightarrow> unat (x + of_nat n) = unat x + n"
  by (simp add: unat_word_ariths unat_of_nat mod_add_right_eq)

lemma run_call_total:
  assumes "metrics_enabled s" and "run_call s c = Inr s'"
  shows "metrics_enabled s' \<and> total_threads_metric s' = total_threads_metric s + of_nat (count_adds [c])"
proof (cases c)
  case (Add thread name category tid)
  with assms(2) have "s' = AddThread s thread name category tid" by simp
  with AddThread_metrics_on[OF assms(1), of thread name category tid] show ?thesis
    by (simp add: count_adds_def Add)
next
  case (Remove boost_id category)
  with assms(2) have "RemoveThread s boost_id category = Inr s'" by simp
  from RemoveThread_metrics_on[OF assms(1) this] show ?thesis
    by (simp add: count_adds_def Remove)
next
  case Instrument
  with assms show ?thesis
    by (auto simp: count_adds_def StartInstrumentation_def)
qed

lemma run_calls_total:
  "metrics_enabled s \<Longrightarrow> run_calls s calls = Inr s' \<Longrightarrow>
     total_threads_metric s' = total_threads_metric s + of_nat (count_adds calls)"
proof (induction calls arbitrary: s)
  case Nil
  then show ?case by (simp add: count_adds_def)
next
  case (Cons c calls)
  from Cons.prems(2) obtain s1 where s1: "run_call s c = Inr s1"
    and rest: "run_calls s1 calls = Inr s'"
    by (auto split: sum.splits)
  from run_call_total[OF Cons.prems(1) s1] have on: "metrics_enabled s1"
    and t1: "total_threads_metric s1 = total_threads_metric s + of_nat (count_adds [c])"
    by blast+
  from Cons.IH[OF on rest] t1 show ?case by (simp add: count_adds_def)
qed

text \<open>
  Claim C2, as amended. Take a registry with no category, metrics enabled and both
  counters at zero. After every sequence of calls that runs without a failed assertion,
  the counter of all threads is the number of \<open>AddThread\<close> calls (in 64-bit arithmetic;
  short of wrap-around it is exactly that number, so it only grows). After every
  sequence in which every \<open>AddThread\<close> registers an identity that is not in the named
  category and every \<open>RemoveThread\<close> names an identity that is registered there, no
  assertion has failed and the counter of running threads is the number of identities
  the category maps hold.
\<close>

theorem counters_track_registrations:
  assumes "thread_categories s = []" and "metrics_enabled s"
    and "total_threads_metric s = 0" and "current_num_threads_metric s = 0"
  shows "(\<forall>s'. run_calls s calls = Inr s' \<longrightarrow>
            ReadNumTotalThreads s' = of_nat (count_adds calls)
          \<and> (count_adds calls < 2 ^ 64 \<longrightarrow> unat (ReadNumTotalThreads s') = count_adds calls))
     \<and> (calls_ok s calls \<longrightarrow>
          (\<exists>s'. run_calls s calls = Inr s'
             \<and> ReadNumCurrentThreads s' = of_nat (num_registered s')))"
proof (intro conjI allI impI)
  fix s'
  assume run: "run_calls s calls = Inr s'"
  from run_calls_total[OF assms(2) run] assms(3)
  show total: "ReadNumTotalThreads s' = of_nat (count_adds calls)"
    by (simp add: ReadNumTotalThreads_def)
  assume "count_adds calls < 2 ^ 64"
  with unat_plus_of_nat[of 0 "count_adds calls"]
  show "unat (ReadNumTotalThreads s') = count_adds calls"
    unfolding total by simp
next
  assume ok: "calls_ok s calls"
  have sorted: "map_ok (thread_categories s)" and none: "num_registered s = 0"
    by (simp_all add: assms(1) map_ok_def num_registered_def)
  from calls_ok_counters[OF assms(2) sorted ok] obtain s' where run: "run_calls s calls = Inr s'"
    and cur: "current_num_threads_metric s' - of_nat (num_registered s')
         = current_num_threads_metric s - of_nat (num_registered s)"
    by blast
  from cur have "ReadNumCurrentThreads s' = of_nat (num_registered s')"
    by (simp add: ReadNumCurrentThreads_def none assms(4))
  with run show "\<exists>s'. run_calls s calls = Inr s'
             \<and> ReadNumCurrentThreads s' = of_nat (num_registered s')"
    by blast
qed

theorem counters_track_registrations_witness:
  "run_calls (ThreadMgr_ctor 0 0) [Instrument]
     = Inr \<lparr>thread_categories = [], metrics_enabled = True,
            total_threads_metric = 0, current_num_threads_metric = 0\<rparr>
   \<and> calls_ok \<lparr>thread_categories = [], metrics_enabled = True,
            total_threads_metric = 0, current_num_threads_metric = 0\<rparr>
       [Add 1 ''t-10'' ''io'' 10, Add 2 ''u-11'' ''rpc'' 11, Remove 1 ''io'']
   \<and> run_calls \<lparr>thread_categories = [], metrics_enabled = True,
            total_threads_metric = 0, current_num_threads_metric = 0\<rparr>
       [Add 1 ''t-10'' ''io'' 10, Add 2 ''u-11'' ''rpc'' 11, Remove 1 ''io'']
     = Inr \<lparr>thread_categories =
              [(''io'', []),
               (''rpc'', [(2, \<lparr>desc_name = ''u-11'', desc_category = ''rpc'', desc_thread_id = 11\<rparr>)])],
            metrics_enabled = True, total_threads_metric = 2, current_num_threads_metric = 1\<rparr>
   \<and> num_registered \<lparr>thread_categories =
              [(''io'', []),
               (''rpc'', [(2, \<lparr>desc_name = ''u-11'', desc_category = ''rpc'', desc_thread_id = 11\<rparr>)])],
            metrics_enabled = True, total_threads_metric = 2, current_num_threads_metric = 1\<rparr> = 1
   \<and> count_adds [Add 1 ''t-10'' ''io'' 10, Add 2 ''u-11'' ''rpc'' 11, Remove 1 ''io''] = 2
   \<and> ReadNumTotalThreads \<lparr>thread_categories =
              [(''io'', []),
               (''rpc'', [(2, \<lparr>desc_name = ''u-11'', desc_category = ''rpc'', desc_thread_id = 11\<rparr>)])],
            metrics_enabled = True, total_threads_metric = 2, current_num_threads_metric = 1\<rparr> = 2
   \<and> ReadNumCurrentThreads \<lparr>thread_categories =
              [(''io'', []),
               (''rpc'', [(2, \<lparr>desc_name = ''u-11'', desc_category = ''rpc'', desc_thread_id = 11\<rparr>)])],
            metrics_enabled = True, total_threads_metric = 2, current_num_threads_metric = 1\<rparr> = 1"
proof -
  define s0 where "s0 = \<lparr>thread_categories = [], metrics_enabled = True,
            total_threads_metric = 0, current_num_threads_metric = (0 :: uint64)\<rparr>"
  define calls where "calls = [Add 1 ''t-10'' ''io'' 10, Add 2 ''u-11'' ''rpc'' 11, Remove 1 ''io'']"
  define s1 where "s1 = \<lparr>thread_categories =
              [(''io'', []),
               (''rpc'', [(2, \<lparr>desc_name = ''u-11'', desc_category = ''rpc'', desc_thread_id = 11\<rparr>)])],
            metrics_enabled = True, total_threads_metric = 2,
            current_num_threads_metric = (1 :: uint64)\<rparr>"
  have start: "run_calls (ThreadMgr_ctor 0 0) [Instrument] = Inr s0"
    by (simp add: s0_def StartInstrumentation_def ThreadMgr_ctor_def)
  have h: "thread_categories s0 = []" "metrics_enabled s0" "total_threads_metric s0 = 0"
    "current_num_threads_metric s0 = 0"
    by (simp_all add: s0_def)
  have ok: "calls_ok s0 calls"
    by (simp add: s0_def calls_def AddThread_def RemoveThread_def ThreadDescriptor_ctor_def
        map_find_def Let_def registered_def lookup_thread_def)
  have run: "run_calls s0 calls = Inr s1"
    by (simp add: s0_def s1_def calls_def AddThread_def RemoveThread_def
        ThreadDescriptor_ctor_def map_find_def Let_def)
  note inst = counters_track_registrations[OF h, of calls]
  have adds: "count_adds calls = 2"
    by (simp add: calls_def count_adds_def)
  have num: "num_registered s1 = 1"
    by (simp add: s1_def num_registered_def map_size_def)
  from inst run have "ReadNumTotalThreads s1 = of_nat (count_adds calls)" by blast
  with adds have total: "ReadNumTotalThreads s1 = 2" by simp
  from inst ok run have "ReadNumCurrentThreads s1 = of_nat (num_registered s1)" by auto
  with num have current: "ReadNumCurrentThreads s1 = 1" by simp
  from start ok run num adds total current show ?thesis
    unfolding s0_def s1_def calls_def by (intro conjI)
qed

theorem counters_track_registrations_counterexample:
  "run_calls (ThreadMgr_ctor 0 0)
     [Instrument, Add 1 ''t-10'' ''io'' 10, Add 1 ''t-10'' ''io'' 10]
     = Inr \<lparr>thread_categories =
              [(''io'', [(1, \<lparr>desc_name = ''t-10'', desc_category = ''io'', desc_thread_id = 10\<rparr>)])],
            metrics_enabled = True, total_threads_metric = 2, current_num_threads_metric = 2\<rparr>
   \<and> ReadNumCurrentThreads \<lparr>thread_categories =
              [(''io'', [(1, \<lparr>desc_name = ''t-10'', desc_category = ''io'', desc_thread_id = 10\<rparr>)])],
            metrics_enabled = True, total_threads_metric = 2, current_num_threads_metric = 2\<rparr> = 2
   \<and> num_registered \<lparr>thread_categories =
              [(''io'', [(1, \<lparr>desc_name = ''t-10'', desc_category = ''io'', desc_thread_id = 10\<rparr>)])],
            metrics_enabled = True, total_threads_metric = 2, current_num_threads_metric = 2\<rparr> = 1
   \<and> run_calls (ThreadMgr_ctor 5 7) [Instrument, Add 1 ''t-10'' ''io'' 10]
     = Inr \<lparr>thread_categories =
              [(''io'', [(1, \<lparr>desc_name = ''t-10'', desc_category = ''io'', desc_thread_id = 10\<rparr>)])],
            metrics_enabled = True, total_threads_metric = 6, current_num_threads_metric = 8\<rparr>
   \<and> ReadNumTotalThreads \<lparr>thread_categories =
              [(''io'', [(1, \<lparr>desc_name = ''t-10'', desc_category = ''io'', desc_thread_id = 10\<rparr>)])],
            metrics_enabled = True, total_threads_metric = 6, current_num_threads_metric = 8\<rparr> = 6
   \<and> count_adds [Add 1 ''t-10'' ''io'' 10] = 1"
  by (simp add: AddThread_def RemoveThread_def StartInstrumentation_def ThreadMgr_ctor_def
        ThreadDescriptor_ctor_def map_find_def Let_def ReadNumCurrentThreads_def
        ReadNumTotalThreads_def num_registered_def map_size_def count_adds_def)

subsection \<open>Rows of the /threadz page\<close>

lemma throttle_step:
  "(if (n::nat) mod 100 = 0 then 1 else 0) + (n + 99) div 100 = (n + 1 + 99) div 100"
proof -
  define q r where "q = n div 100" and "r = n mod 100"
  have n: "n = 100 * q + r" and r: "r < 100" by (simp_all add: q_def r_def)
  have next_one: "(n + 1 + 99) div 100 = q + 1" by (simp add: q_def)
  show ?thesis
  proof (cases "r = 0")
    case True
    then have "(n + 99) div 100 = q" by (simp add: n)
    with True next_one show ?thesis by (simp add: r_def)
  next
    case False
    then have "r + 99 = 100 + (r - 1)" by simp
    then have "n + 99 = (r - 1) + (q + 1) * 100" by (simp add: n)
    then have "(n + 99) div 100 = ((r - 1) + (q + 1) * 100) div 100" by simp
    also have "\<dots> = (r - 1) div 100 + (q + 1)" by simp
    also have "(r - 1) div 100 = 0" using r by simp
    finally have "(n + 99) div 100 = q + 1" by simp
    with False next_one show ?thesis by (simp add: r_def)
  qed
qed


lemma put_simps:
  "page_output (put str ps) = page_output ps @ str"
  "stats_calls (put str ps) = stats_calls ps"
  "log_occurrences (put str ps) = log_occurrences ps"
  "log_INFO (put str ps) = log_INFO ps"
  by (simp_all add: put_def)

lemma print_thread_row_output:
  "page_output (print_thread_row co thread ps) = page_output ps @ row_of co thread"
  by (simp add: print_thread_row_def row_of_def stats_of_def put_def
      LOG_EVERY_N_def Let_def split: prod.splits)

lemma print_thread_row_calls:
  "stats_calls (print_thread_row co thread ps) = stats_calls ps @ [desc_thread_id thread]"
  by (simp add: print_thread_row_def put_def LOG_EVERY_N_def Let_def split: prod.splits)

lemma print_thread_row_occurrences:
  "log_occurrences (print_thread_row co thread ps)
     = log_occurrences ps + (if stats_failed co thread then 1 else 0)"
  by (simp add: print_thread_row_def stats_failed_def stats_of_def put_def
      LOG_EVERY_N_def Let_def split: prod.splits)

lemma print_thread_row_log:
  "log_INFO (print_thread_row co thread ps)
     = (if stats_failed co thread \<and> log_occurrences ps mod 100 = 0
        then log_INFO ps @ [''Could not get per-thread statistics: ''
                             @ ToString (fst (stats_of co thread))]
        else log_INFO ps)"
  by (simp add: print_thread_row_def stats_failed_def stats_of_def put_def
      LOG_EVERY_N_def Let_def split: prod.splits)

lemma print_thread_row_throttle:
  "length (log_INFO (print_thread_row co thread ps)) + (log_occurrences ps + 99) div 100
     = length (log_INFO ps) + (log_occurrences (print_thread_row co thread ps) + 99) div 100"
proof (cases "stats_failed co thread")
  case True
  have "length (log_INFO (print_thread_row co thread ps))
      = length (log_INFO ps) + (if log_occurrences ps mod 100 = 0 then 1 else 0)"
    using True by (simp add: print_thread_row_log)
  moreover have "log_occurrences (print_thread_row co thread ps) = log_occurrences ps + 1"
    using True by (simp add: print_thread_row_occurrences)
  ultimately show ?thesis using throttle_step[of "log_occurrences ps"] by presburger
next
  case False
  then show ?thesis by (simp add: print_thread_row_log print_thread_row_occurrences)
qed


lemma PrintThreadCategoryRows_output:
  "page_output (PrintThreadCategoryRows co category ps)
     = page_output ps @ concat (map (row_of co) (map snd category))"
  by (induction category arbitrary: ps) (simp_all add: print_thread_row_output)

lemma PrintThreadCategoryRows_calls:
  "stats_calls (PrintThreadCategoryRows co category ps)
     = stats_calls ps @ map desc_thread_id (map snd category)"
  by (induction category arbitrary: ps) (simp_all add: print_thread_row_calls)

lemma PrintThreadCategoryRows_occurrences:
  "log_occurrences (PrintThreadCategoryRows co category ps)
     = log_occurrences ps + length (filter (stats_failed co) (map snd category))"
  by (induction category arbitrary: ps) (simp_all add: print_thread_row_occurrences)

lemma PrintThreadCategoryRows_throttle:
  "length (log_INFO (PrintThreadCategoryRows co category ps)) + (log_occurrences ps + 99) div 100
     = length (log_INFO ps)
       + (log_occurrences (PrintThreadCategoryRows co category ps) + 99) div 100"
proof (induction category arbitrary: ps)
  case Nil
  then show ?case by simp
next
  case (Cons entry category)
  define ps1 where "ps1 = print_thread_row co (snd entry) ps"
  have "length (log_INFO ps1) + (log_occurrences ps + 99) div 100
     = length (log_INFO ps) + (log_occurrences ps1 + 99) div 100"
    unfolding ps1_def by (rule print_thread_row_throttle)
  with Cons.IH[of ps1] show ?case by (simp add: ps1_def)
qed

lemma print_categories_output:
  "page_output (print_categories co categories ps)
     = page_output ps @ concat (map (row_of co) (map snd (concat categories)))"
  by (induction categories arbitrary: ps) (simp_all add: PrintThreadCategoryRows_output)

lemma print_categories_calls:
  "stats_calls (print_categories co categories ps)
     = stats_calls ps @ map desc_thread_id (map snd (concat categories))"
  by (induction categories arbitrary: ps) (simp_all add: PrintThreadCategoryRows_calls)

lemma whole_seconds_examples:
  "whole_seconds 0 = ''0''" "whole_seconds 2000000000 = ''2''"
  "whole_seconds 3000000000 = ''3''" "whole_seconds 5000000000 = ''5''"
  by (simp_all add: whole_seconds_def stream_int_def stream_nat.simps digit_char_def)

lemma example_rows:
  "stats_of example_collaborators \<lparr>desc_name = n, desc_category = c, desc_thread_id = 11\<rparr>
     = (Status_Error ''IO error: Could not open ifstream'',
        \<lparr>user_ns = 0, kernel_ns = 0, iowait_ns = 0\<rparr>)"
  "stats_of example_collaborators \<lparr>desc_name = n, desc_category = c, desc_thread_id = 10\<rparr>
     = (Status_OK, \<lparr>user_ns = 2000000000, kernel_ns = 3000000000, iowait_ns = 5000000000\<rparr>)"
  "row_of example_collaborators \<lparr>desc_name = n, desc_category = c, desc_thread_id = 11\<rparr>
     = ''<tr><td>'' @ n @ ''</td><td>0</td><td>0</td><td>0</td></tr>''"
  "row_of example_collaborators \<lparr>desc_name = n, desc_category = c, desc_thread_id = 10\<rparr>
     = ''<tr><td>'' @ n @ ''</td><td>2</td><td>3</td><td>5</td></tr>''"
  by (simp_all add: row_of_def stats_of_def thread_row_def example_collaborators_def
      example_GetThreadStats_def whole_seconds_examples)

lemma example_registry:
  "thread_categories (AddThread (AddThread (ThreadMgr_ctor 0 0) 1 ''A'' ''io'' 10) 2 ''B'' ''compute'' 11)
     = [(''compute'', [(2, \<lparr>desc_name = ''B'', desc_category = ''compute'', desc_thread_id = 11\<rparr>)]),
        (''io'', [(1, \<lparr>desc_name = ''A'', desc_category = ''io'', desc_thread_id = 10\<rparr>)])]"
  by (simp add: AddThread_def ThreadMgr_ctor_def ThreadDescriptor_ctor_def map_find_def Let_def)

lemma PrintThreadCategoryRows_log:
  "log_INFO (PrintThreadCategoryRows co category ps)
     = log_INFO ps @ throttled (log_occurrences ps)
         (map (failure_message co) (filter (stats_failed co) (map snd category)))"
  by (induction category arbitrary: ps)
     (simp_all add: print_thread_row_log print_thread_row_occurrences failure_message_def)

text \<open>
  Claim C6. For a thread whose statistics call fails with \<open>status\<close> and leaves \<open>stats\<close>,
  the loop body still writes the thread's row, with the three time columns taken from
  \<open>stats\<close> (the default-constructed \<^verbatim>\<open>ThreadStats\<close>, unless the reader wrote into
  it), and passes the failure once through \<^verbatim>\<open>LOG_EVERY_N(INFO, 100)\<close>: the occurrence
  counter grows by one, and when it stood at a multiple of 100 the line
  \<^verbatim>\<open>Could not get per-thread statistics:\<close> followed by the text of \<open>status\<close> is added to
  the log. For a whole category, \<open>PrintThreadCategoryRows\<close> writes one row for every
  thread, in order, whether or not its call failed; the counter grows by the number of
  failures, and the log grows by exactly the failure messages that the throttle lets
  through, one for each occurrence count 1, 101, 201, ... that is reached. The function
  returns the page state only: it has no error result, and \<open>ThreadPathHandler\<close> passes
  none on.
\<close>

theorem failed_statistics_row_is_rendered:
  "(\<forall>status stats. stats_of co thread = (status, stats) \<and> \<not> ok status \<longrightarrow>
       page_output (print_thread_row co thread ps) = page_output ps @ thread_row co thread stats
     \<and> stats_calls (print_thread_row co thread ps) = stats_calls ps @ [desc_thread_id thread]
     \<and> log_occurrences (print_thread_row co thread ps) = log_occurrences ps + 1
     \<and> log_INFO (print_thread_row co thread ps)
         = (if log_occurrences ps mod 100 = 0
            then log_INFO ps @ [''Could not get per-thread statistics: '' @ ToString status]
            else log_INFO ps))
   \<and> page_output (PrintThreadCategoryRows co category ps)
     = page_output ps @ concat (map (row_of co) (map snd category))
   \<and> stats_calls (PrintThreadCategoryRows co category ps)
     = stats_calls ps @ map desc_thread_id (map snd category)
   \<and> log_occurrences (PrintThreadCategoryRows co category ps)
     = log_occurrences ps + length (filter (stats_failed co) (map snd category))
   \<and> log_INFO (PrintThreadCategoryRows co category ps)
     = log_INFO ps @ throttled (log_occurrences ps)
         (map (failure_message co) (filter (stats_failed co) (map snd category)))
   \<and> length (log_INFO (PrintThreadCategoryRows co category ps)) + (log_occurrences ps + 99) div 100
     = length (log_INFO ps)
       + (log_occurrences (PrintThreadCategoryRows co category ps) + 99) div 100"
proof -
  have row: "\<forall>status stats. stats_of co thread = (status, stats) \<and> \<not> ok status \<longrightarrow>
       page_output (print_thread_row co thread ps) = page_output ps @ thread_row co thread stats
     \<and> stats_calls (print_thread_row co thread ps) = stats_calls ps @ [desc_thread_id thread]
     \<and> log_occurrences (print_thread_row co thread ps) = log_occurrences ps + 1
     \<and> log_INFO (print_thread_row co thread ps)
         = (if log_occurrences ps mod 100 = 0
            then log_INFO ps @ [''Could not get per-thread statistics: '' @ ToString status]
            else log_INFO ps)"
    by (auto simp: print_thread_row_output print_thread_row_calls print_thread_row_occurrences
        print_thread_row_log row_of_def stats_failed_def)
  from row PrintThreadCategoryRows_output[of co category ps]
    PrintThreadCategoryRows_calls[of co category ps]
    PrintThreadCategoryRows_occurrences[of co category ps]
    PrintThreadCategoryRows_log[of co category ps]
    PrintThreadCategoryRows_throttle[of co category ps]
  show ?thesis by blast
qed

theorem failed_statistics_row_is_rendered_witness:
  "stats_of example_collaborators
         \<lparr>desc_name = ''u-11'', desc_category = ''io'', desc_thread_id = 11\<rparr>
       = (Status_Error ''IO error: Could not open ifstream'',
          \<lparr>user_ns = 0, kernel_ns = 0, iowait_ns = 0\<rparr>)
   \<and> \<not> ok (Status_Error ''IO error: Could not open ifstream'')
   \<and> print_thread_row example_collaborators
         \<lparr>desc_name = ''u-11'', desc_category = ''io'', desc_thread_id = 11\<rparr> empty_page
       = \<lparr>page_output = ''<tr><td>u-11</td><td>0</td><td>0</td><td>0</td></tr>'',
          stats_calls = [11], log_occurrences = 1,
          log_INFO = [''Could not get per-thread statistics: IO error: Could not open ifstream'']\<rparr>
   \<and> PrintThreadCategoryRows example_collaborators
       [(1, \<lparr>desc_name = ''t-10'', desc_category = ''io'', desc_thread_id = 10\<rparr>),
        (2, \<lparr>desc_name = ''u-11'', desc_category = ''io'', desc_thread_id = 11\<rparr>)] empty_page
       = \<lparr>page_output = ''<tr><td>t-10</td><td>2</td><td>3</td><td>5</td></tr>''
                          @ ''<tr><td>u-11</td><td>0</td><td>0</td><td>0</td></tr>'',
          stats_calls = [10, 11], log_occurrences = 1,
          log_INFO = [''Could not get per-thread statistics: IO error: Could not open ifstream'']\<rparr>"
proof -
  define d10 where "d10 = \<lparr>desc_name = ''t-10'', desc_category = ''io'', desc_thread_id = 10\<rparr>"
  define d11 where "d11 = \<lparr>desc_name = ''u-11'', desc_category = ''io'', desc_thread_id = 11\<rparr>"
  define R where "R = print_thread_row example_collaborators d11 empty_page"
  define P where "P = PrintThreadCategoryRows example_collaborators [(1, d10), (2, d11)] empty_page"
  have eq: "r = \<lparr>page_output = a, stats_calls = b, log_occurrences = c, log_INFO = d\<rparr>"
    if "page_output r = a" "stats_calls r = b" "log_occurrences r = c" "log_INFO r = d"
    for r :: page_state and a b c d
    using that by (cases r) simp
  have so: "stats_of example_collaborators d11
       = (Status_Error ''IO error: Could not open ifstream'',
          \<lparr>user_ns = 0, kernel_ns = 0, iowait_ns = 0\<rparr>)"
    and nok: "\<not> ok (Status_Error ''IO error: Could not open ifstream'')"
    by (simp_all add: d11_def example_rows)
  have failed: "stats_failed example_collaborators d11"
    and fine: "\<not> stats_failed example_collaborators d10"
    by (simp_all add: stats_failed_def example_rows d10_def d11_def)
  have msg: "failure_message example_collaborators d11
      = ''Could not get per-thread statistics: IO error: Could not open ifstream''"
    by (simp add: failure_message_def so)
  have rows: "row_of example_collaborators d10 = ''<tr><td>t-10</td><td>2</td><td>3</td><td>5</td></tr>''"
    "row_of example_collaborators d11 = ''<tr><td>u-11</td><td>0</td><td>0</td><td>0</td></tr>''"
    by (simp_all add: d10_def d11_def example_rows)
  have zero_row: "thread_row example_collaborators d11 \<lparr>user_ns = 0, kernel_ns = 0, iowait_ns = 0\<rparr>
      = ''<tr><td>u-11</td><td>0</td><td>0</td><td>0</td></tr>''"
    using rows(2) by (simp add: row_of_def so)
  have tid11: "desc_thread_id d11 = 11" by (simp add: d11_def)
  have tid10: "desc_thread_id d10 = 10" by (simp add: d10_def)
  note inst = failed_statistics_row_is_rendered[of example_collaborators d11 empty_page
      "[(1, d10), (2, d11)]", folded R_def P_def]
  from inst so nok have
    "page_output R = page_output empty_page
        @ thread_row example_collaborators d11 \<lparr>user_ns = 0, kernel_ns = 0, iowait_ns = 0\<rparr>
     \<and> stats_calls R = stats_calls empty_page @ [desc_thread_id d11]
     \<and> log_occurrences R = log_occurrences empty_page + 1
     \<and> log_INFO R
         = (if log_occurrences empty_page mod 100 = 0
            then log_INFO empty_page @ [''Could not get per-thread statistics: ''
                   @ ToString (Status_Error ''IO error: Could not open ifstream'')]
            else log_INFO empty_page)"
    by blast
  then have row: "R = \<lparr>page_output = ''<tr><td>u-11</td><td>0</td><td>0</td><td>0</td></tr>'',
          stats_calls = [11], log_occurrences = 1,
          log_INFO = [''Could not get per-thread statistics: IO error: Could not open ifstream'']\<rparr>"
    by (intro eq) (simp_all add: zero_row empty_page_def tid11)
  from inst have
    "page_output P = page_output empty_page
        @ concat (map (row_of example_collaborators) (map snd [(1::nat, d10), (2, d11)]))
     \<and> stats_calls P = stats_calls empty_page
        @ map desc_thread_id (map snd [(1::nat, d10), (2, d11)])
     \<and> log_occurrences P = log_occurrences empty_page
        + length (filter (stats_failed example_collaborators) (map snd [(1::nat, d10), (2, d11)]))
     \<and> log_INFO P = log_INFO empty_page @ throttled (log_occurrences empty_page)
         (map (failure_message example_collaborators)
            (filter (stats_failed example_collaborators) (map snd [(1::nat, d10), (2, d11)])))"
    by blast
  then have cat: "P = \<lparr>page_output = ''<tr><td>t-10</td><td>2</td><td>3</td><td>5</td></tr>''
                          @ ''<tr><td>u-11</td><td>0</td><td>0</td><td>0</td></tr>'',
          stats_calls = [10, 11], log_occurrences = 1,
          log_INFO = [''Could not get per-thread statistics: IO error: Could not open ifstream'']\<rparr>"
    by (intro eq) (simp_all add: rows failed fine msg empty_page_def tid10 tid11)
  from so nok row cat show ?thesis
    unfolding R_def P_def d10_def d11_def by (intro conjI)
qed

subsection \<open>The view of all threads\<close>

lemma concat_all_empty: "\<forall>entry \<in> set m. snd entry = [] \<Longrightarrow> concat (map snd m) = []"
  by (induction m) auto

lemma concat_one_category:
  assumes "map_ok m" and "\<forall>entry \<in> set m. fst entry \<noteq> k \<longrightarrow> snd entry = []"
  shows "concat (map snd m) = (case map_find k m of None \<Rightarrow> [] | Some c \<Rightarrow> c)"
  using assms
proof (induction m)
  case Nil
  then show ?case by (simp add: map_find_def)
next
  case (Cons p m)
  obtain k' c' where p: "p = (k', c')" by (cases p)
  from Cons.prems(1) have tl: "map_ok m" and hd: "\<forall>x \<in> fst ` set m. k' < x"
    by (simp_all add: p map_ok_Cons)
  from Cons.prems(2) have rest: "\<forall>entry \<in> set m. fst entry \<noteq> k \<longrightarrow> snd entry = []"
    by simp
  show ?case
  proof (cases "k' = k")
    case True
    with hd have "\<forall>entry \<in> set m. fst entry \<noteq> k" by auto
    with rest have "\<forall>entry \<in> set m. snd entry = []" by blast
    then have "concat (map snd m) = []" by (rule concat_all_empty)
    with True show ?thesis by (simp add: p map_find_def)
  next
    case False
    with Cons.prems(2) have "c' = []" by (simp add: p)
    with False Cons.IH[OF tl rest] show ?thesis by (simp add: p map_find_def)
  qed
qed

lemma concat_two_categories:
  assumes "map_ok m" and "k1 < k2"
    and "map_find k1 m = Some c1" and "map_find k2 m = Some c2"
    and "\<forall>entry \<in> set m. fst entry \<noteq> k1 \<and> fst entry \<noteq> k2 \<longrightarrow> snd entry = []"
  shows "concat (map snd m) = c1 @ c2"
  using assms
proof (induction m)
  case Nil
  then show ?case by (simp add: map_find_def)
next
  case (Cons p m)
  obtain k' c' where p: "p = (k', c')" by (cases p)
  from Cons.prems(1) have tl: "map_ok m" and hd: "\<forall>x \<in> fst ` set m. k' < x"
    by (simp_all add: p map_ok_Cons)
  from Cons.prems(5) have rest: "\<forall>entry \<in> set m. fst entry \<noteq> k1 \<and> fst entry \<noteq> k2 \<longrightarrow> snd entry = []"
    by simp
  show ?case
  proof (cases "k' = k1")
    case True
    with Cons.prems(3) have c1: "c' = c1" by (simp add: p map_find_def)
    from True hd have "\<forall>entry \<in> set m. fst entry \<noteq> k1" by auto
    with rest have one: "\<forall>entry \<in> set m. fst entry \<noteq> k2 \<longrightarrow> snd entry = []" by blast
    from Cons.prems(2) True have "k2 \<noteq> k'" by auto
    with Cons.prems(4) have "map_find k2 m = Some c2" by (simp add: p map_find_def)
    with concat_one_category[OF tl one] have "concat (map snd m) = c2" by simp
    with c1 show ?thesis by (simp add: p)
  next
    case False
    with Cons.prems(3) have f1: "map_find k1 m = Some c1" by (simp add: p map_find_def)
    then have "k1 \<in> fst ` set m" using map_find_None_iff[of k1 m] by simp
    with hd have lt: "k' < k1" by blast
    with Cons.prems(2) have "k' \<noteq> k2" by auto
    with Cons.prems(4) have f2: "map_find k2 m = Some c2" by (simp add: p map_find_def)
    from False \<open>k' \<noteq> k2\<close> Cons.prems(5) have "c' = []" by (simp add: p)
    with Cons.IH[OF tl Cons.prems(2) f1 f2 rest] show ?thesis by (simp add: p)
  qed
qed

lemma ThreadPathHandler_all:
  assumes "args ''group'' = Some category_name"
    and "EscapeForHtmlToString co category_name = ''all''"
  shows "ThreadPathHandler co s args ps =
     (s, put ''</table>''
           (print_categories co (map snd (thread_categories s))
              (put table_head (put ''<h3>All Threads : </h3>''
                 (put (''<h2>Thread Group: all</h2>'' @ endl) ps)))))"
  using assms by (simp add: ThreadPathHandler_def Let_def)

text \<open>
  Claim C7. Let the category map hold one thread \<open>a\<close> (the thread A of the claim) alone
  in category \<^verbatim>\<open>io\<close>, one thread \<open>b\<close> (the thread B) alone in category
  \<^verbatim>\<open>compute\<close>, and no thread in any other category. For the group argument \<^verbatim>\<open>all\<close> (which escaping leaves as it
  is) the handler walks every category in key order and writes, between the table head
  and the closing tag, exactly two rows: the row of \<open>b\<close>, then the row of \<open>a\<close>; it asks for
  the statistics of these two threads and leaves the registry as it was.
\<close>

theorem all_view_renders_one_row_per_thread:
  assumes "args ''group'' = Some ''all''" and "EscapeForHtmlToString co ''all'' = ''all''"
    and "map_ok (thread_categories s)"
    and "map_find ''io'' (thread_categories s) = Some [(i, a)]"
    and "map_find ''compute'' (thread_categories s) = Some [(j, b)]"
    and "\<forall>entry \<in> set (thread_categories s).
           fst entry \<noteq> ''compute'' \<and> fst entry \<noteq> ''io'' \<longrightarrow> snd entry = []"
  shows "fst (ThreadPathHandler co s args ps) = s
    \<and> page_output (snd (ThreadPathHandler co s args ps))
       = page_output ps @ ''<h2>Thread Group: all</h2>'' @ endl @ ''<h3>All Threads : </h3>''
         @ table_head @ row_of co b @ row_of co a @ ''</table>''
    \<and> stats_calls (snd (ThreadPathHandler co s args ps))
       = stats_calls ps @ [desc_thread_id b, desc_thread_id a]"
proof -
  have lt: "''compute'' < ''io''" by simp
  have all: "concat (map snd (thread_categories s)) = [(j, b)] @ [(i, a)]"
    by (rule concat_two_categories[OF assms(3) lt assms(5) assms(4) assms(6)])
  note page = ThreadPathHandler_all[of args "''all''" co s ps, OF assms(1,2)]
  show ?thesis
    unfolding page
    by (simp add: put_simps print_categories_output print_categories_calls all)
qed

theorem all_view_renders_one_row_per_thread_witness:
  "[''group'' \<mapsto> ''all''] ''group'' = Some ''all''
   \<and> EscapeForHtmlToString example_collaborators ''all'' = ''all''
   \<and> thread_categories (AddThread (AddThread (ThreadMgr_ctor 0 0) 1 ''A'' ''io'' 10) 2 ''B'' ''compute'' 11)
     = [(''compute'', [(2, \<lparr>desc_name = ''B'', desc_category = ''compute'', desc_thread_id = 11\<rparr>)]),
        (''io'', [(1, \<lparr>desc_name = ''A'', desc_category = ''io'', desc_thread_id = 10\<rparr>)])]
   \<and> page_output (snd (ThreadPathHandler example_collaborators
         (AddThread (AddThread (ThreadMgr_ctor 0 0) 1 ''A'' ''io'' 10) 2 ''B'' ''compute'' 11)
         [''group'' \<mapsto> ''all''] empty_page))
     = ''<h2>Thread Group: all</h2>'' @ endl @ ''<h3>All Threads : </h3>'' @ table_head
       @ ''<tr><td>B</td><td>0</td><td>0</td><td>0</td></tr>''
       @ ''<tr><td>A</td><td>2</td><td>3</td><td>5</td></tr>'' @ ''</table>''
   \<and> stats_calls (snd (ThreadPathHandler example_collaborators
         (AddThread (AddThread (ThreadMgr_ctor 0 0) 1 ''A'' ''io'' 10) 2 ''B'' ''compute'' 11)
         [''group'' \<mapsto> ''all''] empty_page))
     = [11, 10]"
proof -
  define s where "s = AddThread (AddThread (ThreadMgr_ctor 0 0) 1 ''A'' ''io'' 10) 2 ''B'' ''compute'' 11"
  have cats: "thread_categories s
     = [(''compute'', [(2, \<lparr>desc_name = ''B'', desc_category = ''compute'', desc_thread_id = 11\<rparr>)]),
        (''io'', [(1, \<lparr>desc_name = ''A'', desc_category = ''io'', desc_thread_id = 10\<rparr>)])]"
    unfolding s_def by (rule example_registry)
  have args: "[''group'' \<mapsto> ''all''] ''group'' = Some ''all''" by simp
  have esc: "EscapeForHtmlToString example_collaborators ''all'' = ''all''"
    by (simp add: example_collaborators_def)
  have sorted: "map_ok (thread_categories s)" by (simp add: cats map_ok_def)
  have io: "map_find ''io'' (thread_categories s)
      = Some [(1, \<lparr>desc_name = ''A'', desc_category = ''io'', desc_thread_id = 10\<rparr>)]"
    by (simp add: cats map_find_def)
  have compute: "map_find ''compute'' (thread_categories s)
      = Some [(2, \<lparr>desc_name = ''B'', desc_category = ''compute'', desc_thread_id = 11\<rparr>)]"
    by (simp add: cats map_find_def)
  have others: "\<forall>entry \<in> set (thread_categories s).
           fst entry \<noteq> ''compute'' \<and> fst entry \<noteq> ''io'' \<longrightarrow> snd entry = []"
    by (simp add: cats)
  from all_view_renders_one_row_per_thread[where args = "[''group'' \<mapsto> ''all'']"
      and co = example_collaborators and s = s and ps = empty_page,
      OF args esc sorted io compute others] args esc cats
  show ?thesis unfolding s_def by (simp add: example_rows empty_page_def)
qed

subsection \<open>A category that does not exist\<close>








subsection \<open>What a supervised thread registers\<close>

lemma lookup_AddThread:
  "lookup_thread (AddThread s i n c t) i' c'
     = (if i' = i \<and> c' = c then Some (ThreadDescriptor_ctor c n t) else lookup_thread s i' c')"
  by (auto simp: lookup_thread_def AddThread_def Let_def map_find_assign
      split: option.splits) (simp_all add: map_find_def)

lemma RemoveThread_categories:
  "RemoveThread s i c = Inr s' \<Longrightarrow>
     thread_categories s' = map_modify c (map_erase i) (thread_categories s)"
  by (auto simp: RemoveThread_def Let_def split: option.splits if_splits)

lemma lookup_RemoveThread_other:
  assumes "RemoveThread s i c = Inr s'" and "i' \<noteq> i"
  shows "lookup_thread s' i' c' = lookup_thread s i' c'"
proof -
  have "map_find i' (map_erase i cat) = map_find i' cat" for cat :: ThreadCategory
    using assms(2) by (rule map_find_erase_other)
  then show ?thesis
    unfolding lookup_thread_def RemoveThread_categories[OF assms(1)] map_find_modify
    by (simp split: option.splits)
qed

lemma lookup_StartInstrumentation:
  "StartInstrumentation s r w = Inr s' \<Longrightarrow> lookup_thread s' i c = lookup_thread s i c"
  by (auto simp: lookup_thread_def StartInstrumentation_def split: if_splits)

lemma lookup_run_call_other:
  assumes "run_call s call = Inr s'" and "call_identity call \<noteq> Some i"
  shows "lookup_thread s' i c = lookup_thread s i c"
proof (cases call)
  case (Add thread name category tid)
  with assms show ?thesis by (auto simp: lookup_AddThread)
next
  case (Remove boost_id category)
  with assms show ?thesis by (auto simp: lookup_RemoveThread_other)
next
  case Instrument
  with assms show ?thesis by (auto simp: lookup_StartInstrumentation)
qed

lemma register_result:
  assumes "SuperviseThread_register env name category mgr lg = (l, mgr', lg')"
  shows "system_tid l = gettid_result env"
    and "category_copy l = (if category = [] then ''no-category'' else category)"
    and "name_copy l = (if name = [] then ''thread'' else name) @ ''-''
           @ stream_int64 (gettid_result env)"
    and "lookup_thread mgr' (child_id env) (category_copy l)
           = Some (ThreadDescriptor_ctor (category_copy l) (name_copy l) (system_tid l))"
  using assms by (auto simp: SuperviseThread_register_def Let_def lookup_AddThread)

lemma stream_4711: "stream_int64 4711 = ''4711''"
  by (simp add: stream_int64_def stream_int_def stream_nat.simps digit_char_def)

text \<open>
  Claim C10. After the registration part of \<^verbatim>\<open>SuperviseThread\<close>, the registry holds,
  under the child's identity, a descriptor whose name is the supplied name (or
  \<^verbatim>\<open>thread\<close> when the supplied name is empty), a dash and the decimal text of the
  resolved OS thread id (the suffix is there for a non-empty name too), whose OS id is
  the resolved one, and whose category, the one it is filed under, is the supplied
  category, or \<^verbatim>\<open>no-category\<close> when the supplied category is empty.
\<close>

theorem supervised_thread_registration:
  "lookup_thread (fst (snd (SuperviseThread_register env name category mgr lg))) (child_id env)
       (if category = [] then ''no-category'' else category)
     = Some \<lparr>desc_name = (if name = [] then ''thread'' else name) @ ''-''
                            @ stream_int64 (gettid_result env),
              desc_category = (if category = [] then ''no-category'' else category),
              desc_thread_id = gettid_result env\<rparr>"
  by (simp add: SuperviseThread_register_def Let_def lookup_AddThread ThreadDescriptor_ctor_def)

theorem supervised_thread_registration_witness:
  "lookup_thread (fst (snd (SuperviseThread_register example_env ''reactor'' []
        (ThreadMgr_ctor 0 0) (0, [])))) 7 ''no-category''
     = Some \<lparr>desc_name = ''reactor-4711'', desc_category = ''no-category'',
              desc_thread_id = 4711\<rparr>
   \<and> lookup_thread (fst (snd (SuperviseThread_register example_env [] ''rpc''
        (ThreadMgr_ctor 0 0) (0, [])))) 7 ''rpc''
     = Some \<lparr>desc_name = ''thread-4711'', desc_category = ''rpc'', desc_thread_id = 4711\<rparr>"
  using supervised_thread_registration[of example_env "''reactor''" "[]" "ThreadMgr_ctor 0 0" "(0, [])"]
    supervised_thread_registration[of example_env "[]" "''rpc''" "ThreadMgr_ctor 0 0" "(0, [])"]
  by (simp add: example_env_def stream_4711)

subsection \<open>The start handshake\<close>

lemma inv_initial:
  "launcher h = L_entry \<Longrightarrow> child h = C_not_started \<Longrightarrow> handshake_inv env h"
  by (simp add: handshake_inv_def)

lemma inv_launcher_step:
  assumes "handshake_inv env h" and "launcher_step env h = Inr h'"
  shows "handshake_inv env h'"
  using assms
  by (cases "launcher h")
     (auto simp: handshake_inv_def launcher_step_def holds_descriptor_def split: if_splits)

lemma inv_child_register:
  assumes inv: "handshake_inv env h" and pc: "child h = C_register"
    and step: "child_step env h = Inr h'"
  shows "handshake_inv env h'"
proof -
  from step pc obtain mgr where mgr: "thread_manager h = Some mgr"
    by (auto simp: child_step_def split: option.splits)
  obtain l mgr' lg where reg: "SuperviseThread_register env (thread_name (thread_obj h))
      (thread_category (thread_obj h)) mgr (tid_log h) = (l, mgr', lg)"
    by (cases "SuperviseThread_register env (thread_name (thread_obj h))
      (thread_category (thread_obj h)) mgr (tid_log h)") auto
  from step pc mgr reg have h': "h' = h\<lparr>locals := l, thread_manager := Some mgr', tid_log := lg,
      child := C_wait\<rparr>"
    by (simp add: child_step_def)
  from inv pc have la: "launcher h \<noteq> L_entry" "launcher h \<noteq> L_create"
    and sentinel: "c_p_tid h = UNINITIALISED_THREAD_ID env"
    and notyet: "launcher h \<noteq> L_read" "launcher h \<noteq> L_returned"
    by (auto simp: handshake_inv_def)
  from register_result(1,4)[OF reg] la sentinel notyet show ?thesis
    unfolding h' by (simp add: handshake_inv_def holds_descriptor_def)
qed

lemma inv_child_remove:
  assumes inv: "handshake_inv env h" and pc: "child h = C_remove"
    and step: "child_step env h = Inr h'"
  shows "handshake_inv env h'"
proof -
  from step pc obtain mgr mgr' where "thread_manager h = Some mgr"
    and h': "h' = h\<lparr>thread_manager := Some mgr', child := C_finished\<rparr>"
    by (auto simp: child_step_def split: option.splits sum.splits)
  with inv pc show ?thesis
    unfolding h' by (auto simp: handshake_inv_def)
qed

lemma inv_child_step:
  assumes "handshake_inv env h" and "child_step env h = Inr h'"
  shows "handshake_inv env h'"
proof (cases "child h")
  case C_register
  with assms show ?thesis by (simp add: inv_child_register)
next
  case C_remove
  with assms show ?thesis by (simp add: inv_child_remove)
qed (use assms in \<open>auto simp: handshake_inv_def child_step_def holds_descriptor_def
       split: if_splits\<close>)

lemma inv_other_step:
  assumes inv: "handshake_inv env h" and step: "other_step env call h = Inr h'"
  shows "handshake_inv env h'"
proof (cases "h' = h")
  case True
  with inv show ?thesis by simp
next
  case False
  with step obtain mgr mgr' where mgr: "thread_manager h = Some mgr"
    and other: "call_identity call \<noteq> Some (child_id env)"
    and call: "run_call mgr call = Inr mgr'"
    and h': "h' = h\<lparr>thread_manager := Some mgr'\<rparr>"
    by (auto simp: other_step_def split: option.splits if_splits sum.splits)
  have "lookup_thread mgr' (child_id env) c = lookup_thread mgr (child_id env) c" for c
    by (rule lookup_run_call_other[OF call other])
  then have "holds_descriptor env h' = holds_descriptor env h"
    unfolding h' by (simp add: holds_descriptor_def mgr)
  with inv show ?thesis unfolding handshake_inv_def h' by simp
qed

lemma inv_step: "handshake_inv env h \<Longrightarrow> step env e h = Inr h' \<Longrightarrow> handshake_inv env h'"
  by (cases e) (auto intro: inv_launcher_step inv_child_step inv_other_step)

lemma inv_run: "handshake_inv env h \<Longrightarrow> run env es h = Inr h' \<Longrightarrow> handshake_inv env h'"
proof (induction es arbitrary: h)
  case Nil
  then show ?case by simp
next
  case (Cons e es)
  from Cons.prems(2) obtain h1 where s1: "step env e h = Inr h1" and rest: "run env es h1 = Inr h'"
    by (auto split: sum.splits)
  from inv_step[OF Cons.prems(1) s1] rest show ?case by (rule Cons.IH)
qed

text \<open>
  The handshake does complete: when the registry exists, the object has not been started
  before and the id the child resolves is not the sentinel, the schedule below takes the
  launcher to its return and the child to its end, and no assertion fails on the way.
\<close>

lemma RemoveThread_after_AddThread:
  "\<exists>s'. RemoveThread (AddThread s i n c t) i c = Inr s'"
  by (simp add: RemoveThread_def AddThread_def Let_def map_find_assign)

lemma handshake_completes:
  assumes "launcher h0 = L_entry" and "child h0 = C_not_started"
    and "thread_manager h0 = Some mgr"
    and "thread_tid (thread_obj h0) = UNINITIALISED_THREAD_ID env"
    and "gettid_result env \<noteq> UNINITIALISED_THREAD_ID env"
  shows "\<exists>h. run env [Launcher, Launcher, Launcher, Child, Child, Child, Child,
                        Launcher, Launcher, Child, Child] h0 = Inr h
           \<and> launcher h = L_returned \<and> child h = C_finished"
proof -
  obtain l mgr1 lg where reg: "SuperviseThread_register env (thread_name (thread_obj h0))
      (thread_category (thread_obj h0)) mgr (tid_log h0) = (l, mgr1, lg)"
    by (cases "SuperviseThread_register env (thread_name (thread_obj h0))
      (thread_category (thread_obj h0)) mgr (tid_log h0)") auto
  then have mgr1: "mgr1 = AddThread mgr (child_id env) (name_copy l) (category_copy l) (system_tid l)"
    and sys: "system_tid l = gettid_result env"
    by (auto simp: SuperviseThread_register_def Let_def)
  obtain mgr2 where rem: "RemoveThread mgr1 (child_id env) (category_copy l) = Inr mgr2"
    unfolding mgr1 using RemoveThread_after_AddThread by blast
  show ?thesis
    using assms reg rem sys
    by (simp add: launcher_step_def child_step_def THREAD_ASSIGNED_def
        THREAD_NOT_ASSIGNED_def THREAD_RUNNING_def)
qed

lemma example_registration:
  "SuperviseThread_register example_env ''reactor'' [] (ThreadMgr_ctor 0 0) (0, [])
     = (\<lparr>system_tid = 4711, category_copy = ''no-category'', name_copy = ''reactor-4711''\<rparr>,
        example_registry_state, (0, []))"
  by (simp add: SuperviseThread_register_def example_env_def stream_4711 AddThread_def
      ThreadMgr_ctor_def ThreadDescriptor_ctor_def map_find_def Let_def
      example_registry_state_def)

lemma example_run: "run example_env example_schedule example_start = Inr example_final"
  by (simp add: example_schedule_def example_start_def launcher_step_def child_step_def
      example_registration THREAD_ASSIGNED_def THREAD_NOT_ASSIGNED_def THREAD_RUNNING_def
      example_final_def)
    (simp add: example_env_def)

text \<open>
  Claim C3. In every run of the handshake, under every schedule and whatever other
  threads do to the registry: once the launcher has returned from \<^verbatim>\<open>StartThread\<close>,
  the stored \<^verbatim>\<open>tid_\<close> is not the sentinel and is the value in \<^verbatim>\<open>c_p_tid\<close>, which is
  the id the child resolved (the result of \<^verbatim>\<open>gettid\<close>) and stored there; the child is
  past that store; and as long as the child has not deregistered, the descriptor the
  registry holds under the child's identity carries the same id.
\<close>

theorem start_returns_the_published_tid:
  assumes "launcher h0 = L_entry" and "child h0 = C_not_started"
    and "run env events h0 = Inr h" and "launcher h = L_returned"
  shows "thread_tid (thread_obj h) \<noteq> UNINITIALISED_THREAD_ID env
     \<and> thread_tid (thread_obj h) = c_p_tid h
     \<and> c_p_tid h = system_tid (locals h)
     \<and> system_tid (locals h) = gettid_result env
     \<and> \<not> before_report (child h)
     \<and> (in_registry (child h) \<longrightarrow>
          (\<exists>mgr. thread_manager h = Some mgr
             \<and> lookup_thread mgr (child_id env) (category_copy (locals h))
                 = Some \<lparr>desc_name = name_copy (locals h),
                          desc_category = category_copy (locals h),
                          desc_thread_id = thread_tid (thread_obj h)\<rparr>))"
proof -
  have inv: "handshake_inv env h"
    by (rule inv_run[OF inv_initial[OF assms(1,2)] assms(3)])
  from inv assms(4) have ne: "c_p_tid h \<noteq> UNINITIALISED_THREAD_ID env"
    and eq: "thread_tid (thread_obj h) = c_p_tid h"
    by (simp_all add: handshake_inv_def)
  from inv assms(4) ne have after: "\<not> before_report (child h)"
    by (auto simp: handshake_inv_def)
  with inv have pub: "c_p_tid h = system_tid (locals h)"
    by (simp add: handshake_inv_def)
  from after have "child h \<noteq> C_not_started" "child h \<noteq> C_register" by auto
  with inv have sys: "system_tid (locals h) = gettid_result env"
    by (simp add: handshake_inv_def)
  have desc: "in_registry (child h) \<longrightarrow>
          (\<exists>mgr. thread_manager h = Some mgr
             \<and> lookup_thread mgr (child_id env) (category_copy (locals h))
                 = Some \<lparr>desc_name = name_copy (locals h),
                          desc_category = category_copy (locals h),
                          desc_thread_id = thread_tid (thread_obj h)\<rparr>)"
    using inv eq pub
    by (auto simp: handshake_inv_def holds_descriptor_def ThreadDescriptor_ctor_def
        split: option.splits)
  from ne eq pub sys after desc show ?thesis by simp
qed

theorem start_returns_the_published_tid_witness:
  "launcher example_start = L_entry
   \<and> child example_start = C_not_started
   \<and> run example_env example_schedule example_start = Inr example_final
   \<and> launcher example_final = L_returned
   \<and> thread_tid (thread_obj example_final) = 4711
   \<and> UNINITIALISED_THREAD_ID example_env = - 2
   \<and> gettid_result example_env = 4711
   \<and> in_registry (child example_final)
   \<and> lookup_thread example_registry_state 7 ''no-category''
       = Some \<lparr>desc_name = ''reactor-4711'', desc_category = ''no-category'',
                desc_thread_id = 4711\<rparr>"
proof -
  have l0: "launcher example_start = L_entry" and c0: "child example_start = C_not_started"
    by (simp_all add: example_start_def)
  have ret: "launcher example_final = L_returned" by (simp add: example_final_def)
  from start_returns_the_published_tid[OF l0 c0 example_run ret] l0 c0 example_run ret
  show ?thesis
    by (simp add: example_final_def example_env_def)
qed

end
